theory Spec2Isabelle
  imports Complex_Main "HOL-Library.List_Lexorder" "HOL-Library.Product_Lexorder"
    "HOL-Library.Multiset"
begin

section \<open>Python values used by generate_terminal_gif.py\<close>

text \<open>
  A Python \<open>str\<close> is a sequence of Unicode code points, so it is modelled as a list of
  natural numbers. ASCII literals of the script are written with \<open>ascii\<close>.
  With the lexicographic order on lists, \<open>s < t\<close> on such lists is Python's \<open>s < t\<close>
  on strings (code point by code point, a proper prefix is smaller).
\<close>

type_synonym ustr = "nat list"

definition ascii :: "string \<Rightarrow> ustr" where
  "ascii s = map of_char s"

text \<open>
  What the script needs from the Unicode character database for the code points from 128
  on: which of them \<open>str.isdigit\<close> accepts (Numeric_Type Digit or Decimal), which are
  decimal digits and with what value (what \<open>int\<close> accepts), which are white space, and
  \<open>str.lower\<close> on a string that is not pure ASCII. The ASCII range is fixed in the
  definitions below, so the record only speaks about the rest.
\<close>

record unicode_data =
  uni_isdigit :: "nat \<Rightarrow> bool"
  uni_decimal :: "nat \<Rightarrow> nat option"
  uni_isspace :: "nat \<Rightarrow> bool"
  uni_lower :: "ustr \<Rightarrow> ustr"

text \<open>
  The exceptions of the script. \<open>PlainException\<close> is \<open>Exception("ffmpeg output missing or
  too small")\<close>; \<open>OSError\<close> covers its subclasses (a missing directory, an image that
  cannot be read). SystemExit and KeyboardInterrupt derive from BaseException only, so
  \<open>except Exception\<close> does not catch them.
\<close>

datatype error =
  ValueError | TypeError | AttributeError | IndexError | OSError | PlainException
  | SystemExit | KeyboardInterrupt

definition is_exception :: "error \<Rightarrow> bool" where
  "is_exception e = (e \<noteq> SystemExit \<and> e \<noteq> KeyboardInterrupt)"

text \<open>The regular expression class \<open>[0-9]\<close>: the ten ASCII digits and nothing else.\<close>

definition is09 :: "nat \<Rightarrow> bool" where
  "is09 c = (48 \<le> c \<and> c \<le> 57)"

text \<open>\<open>str.isdigit\<close>: the string is not empty and every character is a digit.\<close>

definition isdigit_char :: "unicode_data \<Rightarrow> nat \<Rightarrow> bool" where
  "isdigit_char U c = (if c < 128 then is09 c else uni_isdigit U c)"

definition isdigit :: "unicode_data \<Rightarrow> ustr \<Rightarrow> bool" where
  "isdigit U s = (s \<noteq> [] \<and> list_all (isdigit_char U) s)"

text \<open>\<open>str.lower\<close>; on a pure ASCII string it maps A..Z to a..z.\<close>

definition ascii_lower :: "nat \<Rightarrow> nat" where
  "ascii_lower c = (if 65 \<le> c \<and> c \<le> 90 then c + 32 else c)"

definition lower :: "unicode_data \<Rightarrow> ustr \<Rightarrow> ustr" where
  "lower U s = (if list_all (\<lambda>c. c < 128) s then map ascii_lower s else uni_lower U s)"

text \<open>\<open>str.lstrip('#')\<close> and \<open>str.endswith\<close>.\<close>

definition lstrip_hash :: "ustr \<Rightarrow> ustr" where
  "lstrip_hash s = dropWhile (\<lambda>c. c = 35) s"

definition endswith :: "ustr \<Rightarrow> ustr \<Rightarrow> bool" where
  "endswith s suf = (length suf \<le> length s \<and> drop (length s - length suf) s = suf)"

subsection \<open>The built-in int(text, base)\<close>

text \<open>
  CPython first maps every non-ASCII white space character to a blank and every
  non-ASCII decimal digit to its ASCII digit; the first other non-ASCII character becomes
  a question mark and ends the text. It then reads: ASCII white space, an optional sign,
  for base 16 an optional \<open>0x\<close> (and one underscore), digits with single underscores
  between them, white space, and the end of the text. Anything else is a ValueError.
  The limit on the number of digits of a decimal text (4300 by default in recent
  versions, never below 640) is not modelled; file names are shorter than that.
\<close>

fun transform_decimal_and_space :: "unicode_data \<Rightarrow> ustr \<Rightarrow> ustr" where
  "transform_decimal_and_space U [] = []"
| "transform_decimal_and_space U (c # cs) =
     (if c < 128 then c # transform_decimal_and_space U cs
      else if uni_isspace U c then 32 # transform_decimal_and_space U cs
      else (case uni_decimal U c of
              None \<Rightarrow> [63]
            | Some d \<Rightarrow> if d < 10 then (48 + d) # transform_decimal_and_space U cs else [63]))"

definition ascii_isspace :: "nat \<Rightarrow> bool" where
  "ascii_isspace c = (c = 32 \<or> (9 \<le> c \<and> c \<le> 13))"

text \<open>The value of a character as a digit; 37 stands for "not a digit in any base".\<close>

definition digit_value :: "nat \<Rightarrow> nat" where
  "digit_value c =
     (if 48 \<le> c \<and> c \<le> 57 then c - 48
      else if 97 \<le> c \<and> c \<le> 122 then c - 87
      else if 65 \<le> c \<and> c \<le> 90 then c - 55
      else 37)"

text \<open>
  The scan over digits and underscores: \<open>prev\<close> tells whether the character before was
  an underscore, \<open>acc\<close> is the value read so far and \<open>n\<close> the number of characters
  taken. The result is None where CPython reports a syntax error (two underscores in a
  row, or an underscore last), else the value, the number of characters taken and
  the rest of the text.
\<close>

fun scan_digits :: "nat \<Rightarrow> bool \<Rightarrow> nat \<Rightarrow> nat \<Rightarrow> ustr \<Rightarrow> (nat \<times> nat \<times> ustr) option" where
  "scan_digits base prev acc n [] = (if prev then None else Some (acc, n, []))"
| "scan_digits base prev acc n (c # cs) =
     (if c = 95 then (if prev then None else scan_digits base True acc (Suc n) cs)
      else if digit_value c < base then scan_digits base False (acc * base + digit_value c) (Suc n) cs
      else if prev then None else Some (acc, n, c # cs))"

definition skip_sign :: "ustr \<Rightarrow> int \<times> ustr" where
  "skip_sign s =
     (case s of
        [] \<Rightarrow> (1, [])
      | c # cs \<Rightarrow> if c = 43 then (1, cs) else if c = 45 then (- 1, cs) else (1, c # cs))"

definition skip_prefix :: "nat \<Rightarrow> ustr \<Rightarrow> ustr" where
  "skip_prefix base s =
     (case s of
        c # x # r \<Rightarrow>
          if c = 48 \<and> ((base = 16 \<and> (x = 120 \<or> x = 88)) \<or> (base = 8 \<and> (x = 111 \<or> x = 79))
                        \<or> (base = 2 \<and> (x = 98 \<or> x = 66)))
          then (case r of u # r' \<Rightarrow> if u = 95 then r' else r | [] \<Rightarrow> r)
          else s
      | _ \<Rightarrow> s)"

definition py_int :: "unicode_data \<Rightarrow> nat \<Rightarrow> ustr \<Rightarrow> error + int" where
  "py_int U base s =
     (let a = dropWhile ascii_isspace (transform_decimal_and_space U s);
          (sign, b) = skip_sign a;
          d = skip_prefix base b
      in if d \<noteq> [] \<and> hd d = 95 then Inl ValueError
         else (case scan_digits base False 0 0 d of
                 None \<Rightarrow> Inl ValueError
               | Some (v, n, rest) \<Rightarrow>
                   if n = 0 then Inl ValueError
                   else if dropWhile ascii_isspace rest \<noteq> [] then Inl ValueError
                   else Inr (sign * int v)))"

section \<open>hex_to_rgb\<close>

text \<open>
  \<open>hex_color.lstrip('#')\<close>, then \<open>int(hex_color[i:i+2], 16)\<close> for \<open>i\<close> in 0, 2, 4,
  evaluated in that order; the first ValueError ends the call. A slice past the end of
  the string is shorter or empty, never an error.
\<close>

type_synonym rgb = "int \<times> int \<times> int"

definition slice2 :: "ustr \<Rightarrow> nat \<Rightarrow> ustr" where
  "slice2 s i = take 2 (drop i s)"

definition hex_to_rgb :: "unicode_data \<Rightarrow> ustr \<Rightarrow> error + rgb" where
  "hex_to_rgb U hex_color =
     (let h = lstrip_hash hex_color in
      case py_int U 16 (slice2 h 0) of
        Inl e \<Rightarrow> Inl e
      | Inr r \<Rightarrow>
          (case py_int U 16 (slice2 h 2) of
             Inl e \<Rightarrow> Inl e
           | Inr g \<Rightarrow>
               (case py_int U 16 (slice2 h 4) of
                  Inl e \<Rightarrow> Inl e
                | Inr b \<Rightarrow> Inr (r, g, b))))"

text \<open>
  The inverse direction is not part of the script. It is written here after the usual
  format \<open>'#%02x%02x%02x'\<close>, to state the round trip of hex_to_rgb.
\<close>

definition hex_digit :: "nat \<Rightarrow> nat" where
  "hex_digit v = (if v < 10 then 48 + v else 87 + v)"

definition hex2 :: "int \<Rightarrow> ustr" where
  "hex2 v = [hex_digit (nat v div 16), hex_digit (nat v mod 16)]"

definition rgb_to_hex :: "rgb \<Rightarrow> ustr" where
  "rgb_to_hex c = (case c of (r, g, b) \<Rightarrow> 35 # hex2 r @ hex2 g @ hex2 b)"

text \<open>A string of the form \<open>#RRGGBB\<close>: a hash and six hexadecimal digits.\<close>

definition is_hex :: "nat \<Rightarrow> bool" where
  "is_hex c = (is09 c \<or> (97 \<le> c \<and> c \<le> 102) \<or> (65 \<le> c \<and> c \<le> 70))"

definition valid_hex_color :: "ustr \<Rightarrow> bool" where
  "valid_hex_color s = (length s = 7 \<and> hd s = 35 \<and> list_all is_hex (tl s))"

section \<open>get_bg_color\<close>

text \<open>
  The values \<open>tomllib.load\<close> returns: strings, integers, booleans, arrays and tables
  (dictionaries with string keys); floats and dates are \<open>TOther\<close>, the script treats
  them like any other value that is neither a string nor a table.
\<close>

datatype toml =
    TString ustr
  | TInteger int
  | TBoolean bool
  | TArray "toml list"
  | TTable "(ustr \<times> toml) list"
  | TOther

type_synonym table = "(ustr \<times> toml) list"

text \<open>\<open>d.get(key, default)\<close> on a dictionary.\<close>

definition dict_get :: "table \<Rightarrow> ustr \<Rightarrow> toml \<Rightarrow> toml" where
  "dict_get d k dflt = (case map_of d k of None \<Rightarrow> dflt | Some v \<Rightarrow> v)"

text \<open>\<open>v.get(key, default)\<close> on any value: only a table has the method.\<close>

definition toml_get :: "toml \<Rightarrow> ustr \<Rightarrow> toml \<Rightarrow> error + toml" where
  "toml_get v k dflt = (case v of TTable d \<Rightarrow> Inr (dict_get d k dflt) | _ \<Rightarrow> Inl AttributeError)"

definition default_bg_hex :: ustr where
  "default_bg_hex = ascii ''#0c0e0f''"

text \<open>
  \<open>.get("default_colors", {}).get("bg", "#0c0e0f")\<close> on a scheme entry, then
  hex_to_rgb; a value without \<open>lstrip\<close> (not a string) is an AttributeError.
\<close>

definition bg_of_entry :: "unicode_data \<Rightarrow> toml \<Rightarrow> error + rgb" where
  "bg_of_entry U entry =
     (case toml_get entry (ascii ''default_colors'') (TTable []) of
        Inl e \<Rightarrow> Inl e
      | Inr dc \<Rightarrow>
          (case toml_get dc (ascii ''bg'') (TString default_bg_hex) of
             Inl e \<Rightarrow> Inl e
           | Inr (TString bg_hex) \<Rightarrow> hex_to_rgb U bg_hex
           | Inr _ \<Rightarrow> Inl AttributeError))"

text \<open>
  The three module globals are arguments: \<open>general\<close> (the \<open>general\<close> table of
  gifos_settings.toml), \<open>local_colors\<close> (ansi_escape_colors.toml) and \<open>gifos_colors\<close>
  (the table of the gifos library). A \<open>color_scheme\<close> that is not a string never
  reaches get_bg_color: the assignment to \<open>os.environ\<close> at import raises TypeError.
\<close>

definition get_bg_color :: "unicode_data \<Rightarrow> table \<Rightarrow> table \<Rightarrow> table \<Rightarrow> error + rgb" where
  "get_bg_color U general local_colors gifos_colors =
     (case dict_get general (ascii ''color_scheme'') (TString (ascii ''yoru'')) of
        TString scheme \<Rightarrow>
          (case map_of local_colors scheme of
             Some entry \<Rightarrow> bg_of_entry U entry
           | None \<Rightarrow> bg_of_entry U (dict_get gifos_colors scheme (TTable [])))
      | _ \<Rightarrow> Inl TypeError)"


section \<open>natural_sort_key\<close>

text \<open>
  \<open>re.split('([0-9]+)', s)\<close>: the text before the first ASCII digit, then, as long as
  there is a digit, the maximal run of digits and the text after it up to the next digit.
  The result starts and ends with a text piece (possibly empty) and alternates.
\<close>

function re_split :: "ustr \<Rightarrow> ustr list" where
  "re_split s =
     (let text = takeWhile (\<lambda>c. \<not> is09 c) s;
          rest = dropWhile (\<lambda>c. \<not> is09 c) s
      in if rest = [] then [text]
         else text # takeWhile is09 rest # re_split (dropWhile is09 rest))"
  by pat_completeness auto
termination
proof (relation "measure length")
  show "wf (measure length)" by simp
next
  fix s pre rest :: ustr
  assume r: "rest = dropWhile (\<lambda>c. \<not> is09 c) s" and ne: "rest \<noteq> []"
  from ne obtain x xs where x: "rest = x # xs" by (cases rest) auto
  have "\<not> \<not> is09 (hd rest)" unfolding r by (rule hd_dropWhile) (use r ne in simp)
  then have "is09 x" by (simp add: x)
  then have "dropWhile is09 rest = dropWhile is09 xs" by (simp add: x)
  then have "length (dropWhile is09 rest) \<le> length xs" by (simp add: length_dropWhile_le)
  also have "\<dots> < length rest" by (simp add: x)
  also have "\<dots> \<le> length s" by (simp add: r length_dropWhile_le)
  finally show "(dropWhile is09 rest, s) \<in> measure length" by simp
qed

declare re_split.simps [simp del]

text \<open>
  The tokens of a key: \<open>int(text) if text.isdigit() else text.lower()\<close>. The list
  comprehension goes from left to right and stops at the first exception.
\<close>

datatype token = TInt int | TStr ustr

definition token_of :: "unicode_data \<Rightarrow> ustr \<Rightarrow> error + token" where
  "token_of U text =
     (if isdigit U text then map_sum id TInt (py_int U 10 text) else Inr (TStr (lower U text)))"

fun collect :: "('a \<Rightarrow> error + 'b) \<Rightarrow> 'a list \<Rightarrow> error + 'b list" where
  "collect f [] = Inr []"
| "collect f (x # xs) =
     (case f x of
        Inl e \<Rightarrow> Inl e
      | Inr y \<Rightarrow> (case collect f xs of Inl e \<Rightarrow> Inl e | Inr ys \<Rightarrow> Inr (y # ys)))"

definition natural_sort_key :: "unicode_data \<Rightarrow> ustr \<Rightarrow> error + token list" where
  "natural_sort_key U s = collect (token_of U) (re_split s)"

subsection \<open>Comparing keys and sorting\<close>

text \<open>
  \<open>a < b\<close> on two tokens: integers by value, strings by code points, an integer with
  a string is a TypeError. On two lists: the first position where the items are not equal
  decides (an integer is never equal to a string, and \<open>==\<close> does not raise); without
  such a position the shorter list is the smaller one.
\<close>

fun token_lt :: "token \<Rightarrow> token \<Rightarrow> error + bool" where
  "token_lt (TInt a) (TInt b) = Inr (a < b)"
| "token_lt (TStr a) (TStr b) = Inr (a < b)"
| "token_lt (TInt a) (TStr b) = Inl TypeError"
| "token_lt (TStr a) (TInt b) = Inl TypeError"

fun key_lt :: "token list \<Rightarrow> token list \<Rightarrow> error + bool" where
  "key_lt [] [] = Inr False"
| "key_lt [] (y # ys) = Inr True"
| "key_lt (x # xs) [] = Inr False"
| "key_lt (x # xs) (y # ys) = (if x = y then key_lt xs ys else token_lt x y)"

text \<open>
  \<open>list.sort(key=...)\<close> computes the key of every item first, then sorts the items by
  their keys with \<open><\<close> alone, keeping items with equal keys in their order (the sort is
  stable). The sort is modelled by a stable insertion sort in which a comparison that
  raises ends the sort; CPython's merge sort makes other comparisons, and gives the same
  list whenever no comparison raises.
\<close>

fun insort_keyed :: "token list \<times> 'a \<Rightarrow> (token list \<times> 'a) list \<Rightarrow> error + (token list \<times> 'a) list" where
  "insort_keyed x [] = Inr [x]"
| "insort_keyed x (y # ys) =
     (case key_lt (fst y) (fst x) of
        Inl e \<Rightarrow> Inl e
      | Inr True \<Rightarrow> (case insort_keyed x ys of Inl e \<Rightarrow> Inl e | Inr r \<Rightarrow> Inr (y # r))
      | Inr False \<Rightarrow> Inr (x # y # ys))"

fun sort_keyed :: "(token list \<times> 'a) list \<Rightarrow> error + (token list \<times> 'a) list" where
  "sort_keyed [] = Inr []"
| "sort_keyed (x # xs) =
     (case sort_keyed xs of Inl e \<Rightarrow> Inl e | Inr r \<Rightarrow> insort_keyed x r)"

definition with_key :: "unicode_data \<Rightarrow> ustr \<Rightarrow> error + (token list \<times> ustr)" where
  "with_key U s = map_sum id (\<lambda>k. (k, s)) (natural_sort_key U s)"

definition sort_natural :: "unicode_data \<Rightarrow> ustr list \<Rightarrow> error + ustr list" where
  "sort_natural U names =
     (case collect (with_key U) names of
        Inl e \<Rightarrow> Inl e
      | Inr keyed \<Rightarrow> map_sum id (map snd) (sort_keyed keyed))"

section \<open>create_gif_from_frames\<close>

text \<open>
  \<open>int(x)\<close> of a float cuts the fraction off. \<open>frame_duration = int(1000 / fps)\<close>; the
  quotient is taken in the reals: the double nearest to 1000/15 is not a whole number
  and lies between the same two integers.
\<close>

definition int_of_float :: "real \<Rightarrow> int" where
  "int_of_float x = (if 0 \<le> x then \<lfloor>x\<rfloor> else \<lceil>x\<rceil>)"

definition fps :: nat where
  "fps = 15"

definition frame_duration :: int where
  "frame_duration = int_of_float (1000 / real fps)"

subsection \<open>Pillow's quantizer and GIF writer\<close>

text \<open>
  A frame of mode P is modelled by the picture it shows: its size and the colour of every
  pixel, row by row. Two frames are equal exactly when the writer finds no difference
  between them.
\<close>

record picture =
  pic_size :: "nat \<times> nat"
  pic_pixels :: "(nat \<times> nat \<times> nat) list"

text \<open>
  What \<open>save\<close> is called with: the frames (the image itself and \<open>append_images\<close>), the
  \<open>duration\<close> in milliseconds and the \<open>loop\<close> count.
\<close>

record save_call =
  call_frames :: "picture list"
  call_duration :: int
  call_loop :: nat

text \<open>
  The animation as the file holds it: the frames with their display times in hundredths of
  a second, and the loop count (0 stands for looping forever).
\<close>

record gif =
  gif_frames :: "(picture \<times> nat) list"
  gif_loop :: nat

record gif_file =
  file_size :: nat
  file_gif :: "gif option"

text \<open>
  The writer (\<open>save_all=True\<close>) gives every frame the duration of the call, then drops a
  frame that equals the frame before it and adds its duration to that frame. The display
  time is stored as \<open>int(duration / 10)\<close> in an unsigned 16-bit field.
\<close>

fun merge_frames :: "(picture \<times> int) list \<Rightarrow> (picture \<times> int) list" where
  "merge_frames [] = []"
| "merge_frames [x] = [x]"
| "merge_frames (x # y # rest) =
     (if fst x = fst y then merge_frames ((fst x, snd x + snd y) # rest)
      else x # merge_frames (y # rest))"

definition centiseconds :: "int \<Rightarrow> nat" where
  "centiseconds d = nat (int_of_float (real_of_int d / 10) mod 65536)"

definition write_gif :: "save_call \<Rightarrow> gif" where
  "write_gif c =
     \<lparr>gif_frames = map (\<lambda>fd. (fst fd, centiseconds (snd fd)))
                     (merge_frames (map (\<lambda>f. (f, call_duration c)) (call_frames c))),
      gif_loop = call_loop c\<rparr>"

subsection \<open>The world and the function\<close>

datatype message =
    NoFramesFound
  | FoundFrames nat nat
  | LoadedFrames nat nat
  | SavingGif
  | SizeReport nat
  | GeneratingGif
  | GeneratedWithFfmpeg
  | FfmpegFailed error

text \<open>
  The part of the world the encoders touch: the listing of the directory \<open>frames\<close>
  (None when \<open>os.listdir\<close> raises), what \<open>Image.open\<close> gives for a path (None when it
  raises), what \<open>convert('P', palette=Image.ADAPTIVE, colors=n)\<close> gives for an opened
  image (None when it raises, as it does for an image of a mode the quantizer does not
  take), the file \<open>output.gif\<close> (None when there is none), the number of bytes the writer
  produces for an animation, the calls of \<open>save\<close> made so far, and what has been printed.
  Failures of the operating system while the file is written are not modelled.
\<close>

record 'i world =
  listdir_frames :: "ustr list option"
  image_open :: "ustr \<Rightarrow> 'i option"
  convert_p :: "'i \<Rightarrow> nat \<Rightarrow> picture option"
  output_file :: "gif_file option"
  encoded_size :: "gif \<Rightarrow> nat"
  save_calls :: "save_call list"
  stdout :: "message list"

definition print :: "message \<Rightarrow> 'i world \<Rightarrow> 'i world" where
  "print m w = w\<lparr>stdout := stdout w @ [m]\<rparr>"

text \<open>\<open>os.path.join(frames_dir, filename)\<close> for a name from a directory listing.\<close>

definition path_join :: "ustr \<Rightarrow> ustr \<Rightarrow> ustr" where
  "path_join d f = d @ [47] @ f"

text \<open>
  The loop over \<open>enumerate(frame_files)\<close>: open, quantize to 256 colours, append, and
  report every 100th frame. \<open>n\<close> is \<open>len(frame_files)\<close>, \<open>i\<close> the index. A file that
  does not open ends the loop with an OSError, an image the quantizer rejects with a
  ValueError.
\<close>

fun load_frames ::
  "'i world \<Rightarrow> nat \<Rightarrow> nat \<Rightarrow> ustr list \<Rightarrow> picture list \<Rightarrow> 'i world \<Rightarrow> (error + picture list) \<times> 'i world"
where
  "load_frames fs n i [] frames w = (Inr frames, w)"
| "load_frames fs n i (filename # rest) frames w =
     (case image_open fs (path_join (ascii ''frames'') filename) of
        None \<Rightarrow> (Inl OSError, w)
      | Some img \<Rightarrow>
          (case convert_p fs img 256 of
             None \<Rightarrow> (Inl ValueError, w)
           | Some frame \<Rightarrow>
               load_frames fs n (i + 1) rest (frames @ [frame])
                 (if (i + 1) mod 100 = 0 then print (LoadedFrames (i + 1) n) w else w)))"

text \<open>
  \<open>frames[0].save(output_file, save_all=True, append_images=frames[1:],
  duration=frame_duration, loop=0)\<close>.
\<close>

definition save_gif :: "picture \<Rightarrow> picture list \<Rightarrow> int \<Rightarrow> nat \<Rightarrow> 'i world \<Rightarrow> 'i world" where
  "save_gif first append_images duration loop w =
     (let c = \<lparr>call_frames = first # append_images, call_duration = duration, call_loop = loop\<rparr>;
          g = write_gif c
      in w\<lparr>output_file := Some \<lparr>file_size = encoded_size w g, file_gif = Some g\<rparr>,
           save_calls := save_calls w @ [c]\<rparr>)"

text \<open>
  The result of a call is the exception it raised, if any, and the world it leaves
  behind.
\<close>

definition create_gif_from_frames :: "unicode_data \<Rightarrow> 'i world \<Rightarrow> error option \<times> 'i world" where
  "create_gif_from_frames U w =
     (case listdir_frames w of
        None \<Rightarrow> (Some OSError, w)
      | Some names \<Rightarrow>
          (case sort_natural U (filter (\<lambda>f. endswith f (ascii ''.png'')) names) of
             Inl e \<Rightarrow> (Some e, w)
           | Inr frame_files \<Rightarrow>
               if frame_files = [] then (None, print NoFramesFound w)
               else
                 (case load_frames w (length frame_files) 0 frame_files []
                         (print (FoundFrames (length frame_files) fps) w) of
                    (Inl e, w1) \<Rightarrow> (Some e, w1)
                  | (Inr frames, w1) \<Rightarrow>
                      (case frames of
                         [] \<Rightarrow> (Some IndexError, print SavingGif w1)
                       | first # others \<Rightarrow>
                           (let w2 = save_gif first others frame_duration 0 (print SavingGif w1)
                            in (None,
                                print (SizeReport (case output_file w2 of
                                                     Some f \<Rightarrow> file_size f | None \<Rightarrow> 0)) w2))))))"

section \<open>The encoding step of main\<close>

text \<open>
  Lines 233 to 245 of the script. \<open>t.gen_gif()\<close> belongs to the gifos library: it is an
  argument, a function from the world to the exception it raised (None when it
  returned) and the world after it. The body of the \<open>try\<close> raises an Exception of its
  own when \<open>output.gif\<close> is missing or has at most 10000 bytes.
\<close>

definition try_body ::
  "('i world \<Rightarrow> error option \<times> 'i world) \<Rightarrow> 'i world \<Rightarrow> error option \<times> 'i world" where
  "try_body gen_gif w =
     (case gen_gif w of
        (Some e, w1) \<Rightarrow> (Some e, w1)
      | (None, w1) \<Rightarrow>
          (case output_file w1 of
             Some f \<Rightarrow>
               if file_size f > 10000 then (None, print GeneratedWithFfmpeg w1)
               else (Some PlainException, w1)
           | None \<Rightarrow> (Some PlainException, w1)))"

definition generate_gif ::
  "unicode_data \<Rightarrow> ('i world \<Rightarrow> error option \<times> 'i world) \<Rightarrow> 'i world \<Rightarrow> error option \<times> 'i world" where
  "generate_gif U gen_gif w =
     (case try_body gen_gif (print GeneratingGif w) of
        (None, w1) \<Rightarrow> (None, w1)
      | (Some e, w1) \<Rightarrow>
          if is_exception e then create_gif_from_frames U (print (FfmpegFailed e) w1)
          else (Some e, w1))"

text \<open>
  The claim's words for "the primary encoder failed", on the outcome of \<open>gen_gif\<close>: it
  raised an exception, or it returned and the output file does not exist or is smaller
  than the smallest size accepted, 10001 bytes.
\<close>

definition min_gif_bytes :: nat where
  "min_gif_bytes = 10001"

definition primary_failed :: "error option \<times> 'i world \<Rightarrow> bool" where
  "primary_failed r =
     (case r of
        (Some e, w) \<Rightarrow> is_exception e
      | (None, w) \<Rightarrow>
          (case output_file w of None \<Rightarrow> True | Some f \<Rightarrow> file_size f < min_gif_bytes))"

section \<open>prepare_transparent_image\<close>

text \<open>
  An opened image: its mode, its size and its pixels as \<open>convert('RGBA')\<close> gives them,
  row by row (for an image of mode RGBA these are its own pixels). Channels are bytes.
\<close>

type_synonym rgba = "nat \<times> nat \<times> nat \<times> nat"

datatype mode = RGBA | OtherMode

record image =
  img_mode :: mode
  img_size :: "nat \<times> nat"
  img_rgba :: "rgba list"

record rgb_image =
  rgb_size :: "nat \<times> nat"
  rgb_data :: "(nat \<times> nat \<times> nat) list"

definition convert_rgba :: "image \<Rightarrow> image" where
  "convert_rgba img = img\<lparr>img_mode := RGBA\<rparr>"

text \<open>\<open>Image.new('RGB', size, color)\<close>: Pillow clips every channel of the colour to a byte.\<close>

definition clip8 :: "int \<Rightarrow> nat" where
  "clip8 v = (if v < 0 then 0 else if 255 < v then 255 else nat v)"

definition image_new :: "nat \<times> nat \<Rightarrow> rgb \<Rightarrow> rgb_image" where
  "image_new sz c =
     (case c of (r, g, b) \<Rightarrow>
        \<lparr>rgb_size = sz, rgb_data = replicate (fst sz * snd sz) (clip8 r, clip8 g, clip8 b)\<rparr>)"

text \<open>
  \<open>background.paste(img, (0, 0), img)\<close> with an RGBA image as its own mask. Pillow
  blends every channel with the alpha byte \<open>a\<close> of the mask:
  \<open>out = DIV255(out * (255 - a) + in * a)\<close>, where \<open>DIV255(x)\<close> is
  \<open>((t >> 8) + t) >> 8\<close> for \<open>t = x + 128\<close>.
\<close>

definition div255 :: "nat \<Rightarrow> nat" where
  "div255 x = (let t = x + 128 in (t div 256 + t) div 256)"

definition blend :: "nat \<Rightarrow> nat \<Rightarrow> nat \<Rightarrow> nat" where
  "blend a out inp = div255 (out * (255 - a) + inp * a)"

definition paste_pixel :: "nat \<times> nat \<times> nat \<Rightarrow> rgba \<Rightarrow> nat \<times> nat \<times> nat" where
  "paste_pixel bg px =
     (case bg of (r0, g0, b0) \<Rightarrow>
        (case px of (r, g, b, a) \<Rightarrow> (blend a r0 r, blend a g0 g, blend a b0 b)))"

definition paste :: "rgb_image \<Rightarrow> image \<Rightarrow> rgb_image" where
  "paste background img =
     background\<lparr>rgb_data := map2 paste_pixel (rgb_data background) (img_rgba img)\<rparr>"

text \<open>
  \<open>opened\<close> is what \<open>Image.open(image_path)\<close> gives (None when it raises); \<open>bg_color\<close>
  is the optional argument, and \<open>default_bg\<close> what \<open>get_bg_color()\<close> returns. The
  result is the image written to the temporary file whose name the script returns.
\<close>

definition prepare_transparent_image ::
  "image option \<Rightarrow> rgb option \<Rightarrow> error + rgb \<Rightarrow> error + rgb_image" where
  "prepare_transparent_image opened bg_color default_bg =
     (case (case bg_color of None \<Rightarrow> default_bg | Some c \<Rightarrow> Inr c) of
        Inl e \<Rightarrow> Inl e
      | Inr bg \<Rightarrow>
          (case opened of
             None \<Rightarrow> Inl OSError
           | Some img0 \<Rightarrow>
               (let img = (if img_mode img0 \<noteq> RGBA then convert_rgba img0 else img0);
                    background = image_new (img_size img) bg
                in Inr (paste background img))))"


text \<open>
  For the statements about get_bg_color: the \<open>bg\<close> value of a scheme entry when it has
  one, the shape of a colour table (every scheme is a table; \<open>default_colors\<close>, when
  present, is a table; \<open>bg\<close>, when present, is a \<open>#RRGGBB\<close> string), and the scheme
  name the configuration selects.
\<close>

definition entry_bg :: "toml \<Rightarrow> toml option" where
  "entry_bg entry =
     (case entry of
        TTable e \<Rightarrow>
          (case map_of e (ascii ''default_colors'') of
             Some (TTable d) \<Rightarrow> map_of d (ascii ''bg'')
           | _ \<Rightarrow> None)
      | _ \<Rightarrow> None)"

definition wf_entry :: "toml \<Rightarrow> bool" where
  "wf_entry entry =
     (case entry of
        TTable e \<Rightarrow>
          (case map_of e (ascii ''default_colors'') of
             None \<Rightarrow> True
           | Some (TTable d) \<Rightarrow>
               (case map_of d (ascii ''bg'') of
                  None \<Rightarrow> True
                | Some (TString h) \<Rightarrow> valid_hex_color h
                | Some _ \<Rightarrow> False)
           | Some _ \<Rightarrow> False)
      | _ \<Rightarrow> False)"

definition wf_colors :: "table \<Rightarrow> bool" where
  "wf_colors t = list_all (\<lambda>kv. wf_entry (snd kv)) t"

definition configured_scheme :: "table \<Rightarrow> toml" where
  "configured_scheme general =
     dict_get general (ascii ''color_scheme'') (TString (ascii ''yoru''))"

text \<open>The value of two hexadecimal digits.\<close>

definition pair_value :: "nat \<Rightarrow> nat \<Rightarrow> nat" where
  "pair_value a b = digit_value a * 16 + digit_value b"

section \<open>Notions used in the statements\<close>

text \<open>
  A name is plain when its only digit characters are the ASCII digits: no character
  that \<open>str.isdigit\<close> accepts lies outside \<open>0..9\<close>.
\<close>

definition plain :: "unicode_data \<Rightarrow> ustr \<Rightarrow> bool" where
  "plain U s = list_all (\<lambda>c. isdigit_char U c \<longrightarrow> is09 c) s"

text \<open>The number a run of ASCII digits denotes.\<close>

definition decimal_value :: "ustr \<Rightarrow> nat" where
  "decimal_value d = foldl (\<lambda>a c. a * 10 + (c - 48)) 0 d"

text \<open>
  The shape of the pieces of \<open>re.split\<close>, by position: a text piece has no ASCII digit,
  a digit piece is a non-empty run of ASCII digits. The flag tells whether the list
  starts at an odd position.
\<close>

fun alternating :: "bool \<Rightarrow> ustr list \<Rightarrow> bool" where
  "alternating b [] = True"
| "alternating False (t # ts) = (list_all (\<lambda>c. \<not> is09 c) t \<and> alternating True ts)"
| "alternating True (t # ts) = (t \<noteq> [] \<and> list_all is09 t \<and> alternating False ts)"

text \<open>
  The shape of a key: strings at the even positions, integers at the odd ones (from
  position 0; the flag tells whether the list starts at an odd position).
\<close>

fun well_typed :: "bool \<Rightarrow> token list \<Rightarrow> bool" where
  "well_typed b [] = True"
| "well_typed False (t # ts) = ((case t of TStr s \<Rightarrow> True | TInt i \<Rightarrow> False) \<and> well_typed True ts)"
| "well_typed True (t # ts) = ((case t of TInt i \<Rightarrow> True | TStr s \<Rightarrow> False) \<and> well_typed False ts)"

text \<open>
  Tokens of one kind are ordered like their images under \<open>enc\<close> in the lexicographic
  order of pairs; this brings well-typed keys into a linear order.
\<close>

definition enc :: "token \<Rightarrow> int \<times> ustr" where
  "enc t = (case t of TInt i \<Rightarrow> (i, []) | TStr s \<Rightarrow> (0, s))"

abbreviation ekey :: "token list \<times> 'a \<Rightarrow> (int \<times> ustr) list" where
  "ekey \<equiv> (\<lambda>kv. map enc (fst kv))"

definition key_of :: "unicode_data \<Rightarrow> ustr \<Rightarrow> token list" where
  "key_of U s = (case natural_sort_key U s of Inr k \<Rightarrow> k | Inl e \<Rightarrow> [])"

text \<open>
  The key the specification describes: the pieces of the name, the pieces at the even
  positions in lower case, those at the odd positions (the runs of ASCII digits) as
  numbers. The natural order of names is the order of these keys, integers compared by
  value and strings by code points.
\<close>

fun spec_tokens :: "unicode_data \<Rightarrow> bool \<Rightarrow> ustr list \<Rightarrow> token list" where
  "spec_tokens U b [] = []"
| "spec_tokens U False (t # ts) = TStr (lower U t) # spec_tokens U True ts"
| "spec_tokens U True (t # ts) = TInt (int (decimal_value t)) # spec_tokens U False ts"

definition spec_key :: "unicode_data \<Rightarrow> ustr \<Rightarrow> token list" where
  "spec_key U s = spec_tokens U False (re_split s)"

definition natural_rank :: "unicode_data \<Rightarrow> ustr \<Rightarrow> (int \<times> ustr) list" where
  "natural_rank U s = map enc (spec_key U s)"

text \<open>
  A name is clean when none of its pieces at the even positions (the text between the
  runs of ASCII digits) is a digit string for \<open>str.isdigit\<close>. Every plain name is clean.
\<close>

fun texts_ok :: "unicode_data \<Rightarrow> bool \<Rightarrow> ustr list \<Rightarrow> bool" where
  "texts_ok U b [] = True"
| "texts_ok U False (t # ts) = (\<not> isdigit U t \<and> texts_ok U True ts)"
| "texts_ok U True (t # ts) = texts_ok U False ts"

definition clean_name :: "unicode_data \<Rightarrow> ustr \<Rightarrow> bool" where
  "clean_name U s = texts_ok U False (re_split s)"

text \<open>
  The names of a listing that end in \<open>.png\<close>, the frame the loop makes of a file (None
  when the file does not open or the quantizer rejects it), the number of colours of a
  picture, the quantizer's promise to return at most as many colours as it is asked for,
  and the animation in \<open>output.gif\<close> after a call.
\<close>

definition png_names :: "ustr list \<Rightarrow> ustr list" where
  "png_names names = filter (\<lambda>f. endswith f (ascii ''.png'')) names"

definition frame_of :: "'i world \<Rightarrow> ustr \<Rightarrow> picture option" where
  "frame_of w name =
     (case image_open w (path_join (ascii ''frames'') name) of
        None \<Rightarrow> None
      | Some img \<Rightarrow> convert_p w img 256)"

definition colours :: "picture \<Rightarrow> nat" where
  "colours p = length (remdups (pic_pixels p))"

definition quantizer_bound :: "'i world \<Rightarrow> bool" where
  "quantizer_bound w = (\<forall>img n p. convert_p w img n = Some p \<longrightarrow> colours p \<le> n)"

definition written_gif :: "error option \<times> 'i world \<Rightarrow> gif option" where
  "written_gif r = (case output_file (snd r) of Some f \<Rightarrow> file_gif f | None \<Rightarrow> None)"

text \<open>
  Python's \<open>round\<close> of a float to an integer: to the nearest integer, a tie to the even
  one. It is what the specification names for the frame duration; the script does not
  call it.
\<close>

definition py_round :: "real \<Rightarrow> int" where
  "py_round x =
     (let f = \<lfloor>x\<rfloor>; d = x - of_int f
      in if d < 1 / 2 then f else if 1 / 2 < d then f + 1 else if even f then f else f + 1)"

section \<open>Sample data\<close>

text \<open>Unicode data that knows no digit, blank or letter outside ASCII.\<close>

definition ascii_only :: unicode_data where
  "ascii_only = \<lparr>uni_isdigit = (\<lambda>c. False), uni_decimal = (\<lambda>c. None),
     uni_isspace = (\<lambda>c. False), uni_lower = (\<lambda>s. s)\<rparr>"

text \<open>A colour table with one scheme and its background.\<close>

definition scheme_with_bg :: "string \<Rightarrow> string \<Rightarrow> table" where
  "scheme_with_bg name h =
     [(ascii name,
       TTable [(ascii ''default_colors'', TTable [(ascii ''bg'', TString (ascii h))])])]"

text \<open>A colour table with one scheme that has foreground only.\<close>

definition scheme_without_bg :: "string \<Rightarrow> table" where
  "scheme_without_bg name =
     [(ascii name,
       TTable [(ascii ''default_colors'', TTable [(ascii ''fg'', TString (ascii ''#edeff0''))])])]"


text \<open>
  A world whose directory \<open>frames\<close> holds no file ending in \<open>.png\<close>, and no
  \<open>output.gif\<close>. Images are named by numbers.
\<close>

definition world_without_frames :: "nat world" where
  "world_without_frames =
     \<lparr>listdir_frames = Some [ascii ''notes.txt'', ascii ''frame_1.jpg''],
      image_open = (\<lambda>p. None),
      convert_p = (\<lambda>img n. None),
      output_file = None,
      encoded_size = (\<lambda>g. 800 * length (gif_frames g)),
      save_calls = [],
      stdout = []\<rparr>"

text \<open>A primary encoder that returns after leaving an \<open>output.gif\<close> of \<open>n\<close> bytes.\<close>

definition ffmpeg_writes :: "nat \<Rightarrow> nat world \<Rightarrow> error option \<times> nat world" where
  "ffmpeg_writes n w = (None, w\<lparr>output_file := Some \<lparr>file_size = n, file_gif = None\<rparr>\<rparr>)"

text \<open>An image of two pixels, both fully transparent.\<close>

definition transparent_image :: image where
  "transparent_image =
     \<lparr>img_mode = RGBA, img_size = (2, 1), img_rgba = [(255, 0, 0, 0), (1, 2, 3, 0)]\<rparr>"

text \<open>
  Unicode data with the Arabic-Indic digits U+0660..U+0669 (decimal digits 0..9), the
  superscript two U+00B2 (a digit for \<open>isdigit\<close>, not a decimal) and the no-break space.
\<close>

definition sample_unicode :: unicode_data where
  "sample_unicode =
     \<lparr>uni_isdigit = (\<lambda>c. (1632 \<le> c \<and> c \<le> 1641) \<or> c = 178),
      uni_decimal = (\<lambda>c. if 1632 \<le> c \<and> c \<le> 1641 then Some (c - 1632) else None),
      uni_isspace = (\<lambda>c. c = 160),
      uni_lower = (\<lambda>s. s)\<rparr>"

text \<open>
  A quantizer for the samples: the picture of image \<open>k\<close> is one pixel of the grey \<open>k\<close>;
  zero colours cannot be asked for.
\<close>

definition grey_pixel :: "nat \<Rightarrow> picture" where
  "grey_pixel k = \<lparr>pic_size = (1, 1), pic_pixels = [(k, k, k)]\<rparr>"

definition one_pixel :: "nat \<Rightarrow> nat \<Rightarrow> picture option" where
  "one_pixel k n = (if n = 0 then None else Some (grey_pixel k))"

text \<open>
  A world with two frames, listed out of order and differing in the case of a letter, and
  a file that is no frame.
\<close>

definition world_with_frames :: "nat world" where
  "world_with_frames =
     \<lparr>listdir_frames = Some [ascii ''Frame_10.png'', ascii ''notes.txt'', ascii ''frame_2.png''],
      image_open = (\<lambda>p. if p = ascii ''frames/Frame_10.png'' then Some 10
                         else if p = ascii ''frames/frame_2.png'' then Some 2 else None),
      convert_p = one_pixel,
      output_file = None,
      encoded_size = (\<lambda>g. 800 * length (gif_frames g)),
      save_calls = [],
      stdout = []\<rparr>"

text \<open>A world with three frame files, the first two holding the same picture.\<close>

definition world_with_equal_frames :: "nat world" where
  "world_with_equal_frames =
     \<lparr>listdir_frames = Some [ascii ''frame_1.png'', ascii ''frame_2.png'', ascii ''frame_3.png''],
      image_open = (\<lambda>p. if p = ascii ''frames/frame_1.png'' \<or> p = ascii ''frames/frame_2.png''
                         then Some 5
                         else if p = ascii ''frames/frame_3.png'' then Some 7 else None),
      convert_p = one_pixel,
      output_file = None,
      encoded_size = (\<lambda>g. 800 * length (gif_frames g)),
      save_calls = [],
      stdout = []\<rparr>"

text \<open>
  A world with two frame files, one of them with a name that starts with the
  Arabic-Indic digit three (U+0663). Every path opens.
\<close>

definition world_with_foreign_digit :: "nat world" where
  "world_with_foreign_digit =
     \<lparr>listdir_frames = Some [1635 # ascii ''1.png'', ascii ''a1.png''],
      image_open = (\<lambda>p. Some 1),
      convert_p = one_pixel,
      output_file = None,
      encoded_size = (\<lambda>g. 800 * length (gif_frames g)),
      save_calls = [],
      stdout = []\<rparr>"

section \<open>Properties of hex_to_rgb\<close>

lemma is_hex_cases:
  "is_hex c \<Longrightarrow> digit_value c < 16 \<and> c < 128 \<and> c \<noteq> 95 \<and> c \<noteq> 35 \<and> c \<noteq> 43 \<and> c \<noteq> 45
     \<and> \<not> ascii_isspace c \<and> c \<noteq> 120 \<and> c \<noteq> 88"
  by (auto simp: is_hex_def is09_def digit_value_def ascii_isspace_def)

lemma py_int_hex_pair:
  assumes "is_hex a" "is_hex b"
  shows "py_int U 16 [a, b] = Inr (int (pair_value a b))"
  using is_hex_cases[OF assms(1)] is_hex_cases[OF assms(2)]
  by (simp add: py_int_def skip_sign_def skip_prefix_def pair_value_def)

lemma hex_digit_value:
  "is_hex c \<Longrightarrow> hex_digit (digit_value c) = ascii_lower c"
  by (auto simp: is_hex_def is09_def digit_value_def hex_digit_def ascii_lower_def)

lemma hex2_pair:
  assumes "is_hex a" "is_hex b"
  shows "hex2 (int (pair_value a b)) = [ascii_lower a, ascii_lower b]"
proof -
  have b: "digit_value b < 16"
    using is_hex_cases assms by blast
  have "pair_value a b div 16 = digit_value a"
    using b by (simp add: pair_value_def)
  moreover have "pair_value a b mod 16 = digit_value b"
    using b by (simp add: pair_value_def)
  ultimately show ?thesis
    using assms by (simp add: hex2_def hex_digit_value)
qed

lemma valid_hex_color_shape:
  assumes "valid_hex_color s"
  obtains a b c d e f where "s = [35, a, b, c, d, e, f]"
    "is_hex a" "is_hex b" "is_hex c" "is_hex d" "is_hex e" "is_hex f"
proof -
  from assms have len: "length s = 7" and h: "hd s = 35" and t: "list_all is_hex (tl s)"
    by (simp_all add: valid_hex_color_def)
  from len obtain x a b c d e f where s: "s = [x, a, b, c, d, e, f]"
    by (auto simp: length_Suc_conv numeral_eq_Suc)
  with h t that show thesis by simp
qed

lemma hex_to_rgb_valid:
  assumes "valid_hex_color s"
  shows "hex_to_rgb U s = Inr (int (pair_value (s ! 1) (s ! 2)), int (pair_value (s ! 3) (s ! 4)),
     int (pair_value (s ! 5) (s ! 6)))"
proof -
  from assms obtain a b c d e f where s: "s = [35, a, b, c, d, e, f]"
    and hx: "is_hex a" "is_hex b" "is_hex c" "is_hex d" "is_hex e" "is_hex f"
    by (rule valid_hex_color_shape)
  have strip: "lstrip_hash s = [a, b, c, d, e, f]"
    using is_hex_cases[OF hx(1)] by (simp add: s lstrip_hash_def)
  show ?thesis
    unfolding hex_to_rgb_def strip
    by (simp add: slice2_def py_int_hex_pair hx s)
qed

lemma rgb_to_hex_valid:
  assumes "valid_hex_color s"
  shows "rgb_to_hex (int (pair_value (s ! 1) (s ! 2)), int (pair_value (s ! 3) (s ! 4)),
     int (pair_value (s ! 5) (s ! 6))) = map ascii_lower s"
proof -
  from assms obtain a b c d e f where s: "s = [35, a, b, c, d, e, f]"
    and hx: "is_hex a" "is_hex b" "is_hex c" "is_hex d" "is_hex e" "is_hex f"
    by (rule valid_hex_color_shape)
  show ?thesis
    unfolding rgb_to_hex_def s by (simp add: hex2_pair hx ascii_lower_def)
qed

lemma hex_to_rgb_default: "hex_to_rgb U default_bg_hex = Inr (12, 14, 15)"
  by (simp add: default_bg_hex_def hex_to_rgb_def ascii_def lstrip_hash_def slice2_def py_int_def
      skip_sign_def skip_prefix_def ascii_isspace_def digit_value_def)

text \<open>
  Claim C8. For every string of the form \<open>#RRGGBB\<close>, hex_to_rgb returns a triple, and
  writing that triple back as \<open>#rrggbb\<close> gives the string again, up to the case of its
  letters (the result is the string in lower case).
\<close>

theorem hex_to_rgb_roundtrip:
  assumes "valid_hex_color s"
  shows "map_sum id rgb_to_hex (hex_to_rgb U s) = Inr (map ascii_lower s)"
proof -
  have "hex_to_rgb U s = Inr (int (pair_value (s ! 1) (s ! 2)), int (pair_value (s ! 3) (s ! 4)),
     int (pair_value (s ! 5) (s ! 6)))" (is "_ = Inr ?c")
    by (rule hex_to_rgb_valid [OF assms])
  moreover have "rgb_to_hex ?c = map ascii_lower s"
    by (rule rgb_to_hex_valid [OF assms])
  ultimately show ?thesis
    by (simp only: map_sum.simps)
qed

theorem hex_to_rgb_roundtrip_witness:
  "valid_hex_color (ascii ''#0C0e0F'')
   \<and> map_sum id rgb_to_hex (hex_to_rgb ascii_only (ascii ''#0C0e0F'')) = Inr (ascii ''#0c0e0f'')"
proof -
  have v: "valid_hex_color (ascii ''#0C0e0F'')"
    by (simp add: valid_hex_color_def ascii_def is_hex_def is09_def)
  have l: "map ascii_lower (ascii ''#0C0e0F'') = ascii ''#0c0e0f''"
    by (simp add: ascii_def ascii_lower_def)
  from hex_to_rgb_roundtrip [OF v, of ascii_only] v l show ?thesis by simp
qed

section \<open>Properties of get_bg_color\<close>

lemma bg_of_entry_string:
  "entry_bg entry = Some (TString h) \<Longrightarrow> bg_of_entry U entry = hex_to_rgb U h"
  by (auto simp: entry_bg_def bg_of_entry_def toml_get_def dict_get_def
      split: toml.splits option.splits)

lemma bg_of_entry_missing:
  "wf_entry entry \<Longrightarrow> entry_bg entry = None \<Longrightarrow> bg_of_entry U entry = Inr (12, 14, 15)"
  by (auto simp: entry_bg_def wf_entry_def bg_of_entry_def toml_get_def dict_get_def
      hex_to_rgb_default split: toml.splits option.splits)

lemma bg_of_entry_empty: "bg_of_entry U (TTable []) = Inr (12, 14, 15)"
  by (simp add: bg_of_entry_def toml_get_def dict_get_def hex_to_rgb_default)

lemma bg_of_entry_total:
  assumes "wf_entry entry"
  shows "\<exists>c. bg_of_entry U entry = Inr c"
proof (cases "entry_bg entry")
  case None
  with assms show ?thesis by (simp add: bg_of_entry_missing)
next
  case (Some v)
  with assms obtain h where v: "v = TString h" and h: "valid_hex_color h"
    by (cases v) (auto simp: entry_bg_def wf_entry_def split: toml.splits option.splits)
  with Some show ?thesis
    by (simp add: bg_of_entry_string hex_to_rgb_valid)
qed

lemma wf_colors_lookup:
  "wf_colors t \<Longrightarrow> map_of t k = Some entry \<Longrightarrow> wf_entry entry"
  by (force simp: wf_colors_def list_all_iff dest: map_of_SomeD)

text \<open>
  Claim C6. With well-formed colour tables and a configured scheme name \<open>scheme\<close>:
  a background the local table gives for \<open>scheme\<close> is the result, whatever the library
  table holds; when the local table has no \<open>scheme\<close>, a background the library table
  gives for it is the result; when neither table has \<open>scheme\<close>, the result is
  (12, 14, 15); and in every case get_bg_color returns a colour, it never fails.
\<close>

theorem get_bg_color_precedence:
  assumes "wf_colors local_colors" and "wf_colors gifos_colors"
    and "configured_scheme general = TString scheme"
  shows "(\<forall>entry h. map_of local_colors scheme = Some entry \<and> entry_bg entry = Some (TString h)
            \<longrightarrow> get_bg_color U general local_colors gifos_colors = hex_to_rgb U h)
       \<and> (\<forall>entry h. map_of local_colors scheme = None \<and> map_of gifos_colors scheme = Some entry
              \<and> entry_bg entry = Some (TString h)
            \<longrightarrow> get_bg_color U general local_colors gifos_colors = hex_to_rgb U h)
       \<and> (map_of local_colors scheme = None \<and> map_of gifos_colors scheme = None
            \<longrightarrow> get_bg_color U general local_colors gifos_colors = Inr (12, 14, 15))
       \<and> (\<exists>c. get_bg_color U general local_colors gifos_colors = Inr c)"
proof -
  have s: "dict_get general (ascii ''color_scheme'') (TString (ascii ''yoru'')) = TString scheme"
    using assms(3) by (simp add: configured_scheme_def)
  have 1: "get_bg_color U general local_colors gifos_colors = hex_to_rgb U h"
    if "map_of local_colors scheme = Some entry" "entry_bg entry = Some (TString h)" for entry h
    using that by (simp add: get_bg_color_def s bg_of_entry_string)
  have 2: "get_bg_color U general local_colors gifos_colors = hex_to_rgb U h"
    if "map_of local_colors scheme = None" "map_of gifos_colors scheme = Some entry"
      "entry_bg entry = Some (TString h)" for entry h
    using that unfolding get_bg_color_def s by (simp add: dict_get_def bg_of_entry_string)
  have 3: "get_bg_color U general local_colors gifos_colors = Inr (12, 14, 15)"
    if "map_of local_colors scheme = None" "map_of gifos_colors scheme = None"
    using that unfolding get_bg_color_def s by (simp add: dict_get_def bg_of_entry_empty)
  have 4: "\<exists>c. get_bg_color U general local_colors gifos_colors = Inr c"
  proof (cases "map_of local_colors scheme")
    case (Some entry)
    with assms(1) have "wf_entry entry" by (simp add: wf_colors_lookup)
    moreover have "get_bg_color U general local_colors gifos_colors = bg_of_entry U entry"
      using Some by (simp add: get_bg_color_def s)
    ultimately show ?thesis using bg_of_entry_total by presburger
  next
    case None
    show ?thesis
    proof (cases "map_of gifos_colors scheme")
      case (Some entry)
      with assms(2) have "wf_entry entry" by (simp add: wf_colors_lookup)
      moreover have "get_bg_color U general local_colors gifos_colors = bg_of_entry U entry"
        using Some None unfolding get_bg_color_def s by (simp add: dict_get_def)
      ultimately show ?thesis using bg_of_entry_total by presburger
    next
      case n: None
      then show ?thesis using None 3 by simp
    qed
  qed
  from 1 2 3 4 show ?thesis by blast
qed

lemma wf_scheme_with_bg: "wf_colors (scheme_with_bg ''yoru'' ''#1a1b26'')"
  and wf_scheme_white: "wf_colors (scheme_with_bg ''yoru'' ''#ffffff'')"
  and wf_scheme_without_bg: "wf_colors (scheme_without_bg ''yoru'')"
  and wf_no_scheme: "wf_colors []"
  by (simp_all add: wf_colors_def wf_entry_def scheme_with_bg_def scheme_without_bg_def ascii_def
      valid_hex_color_def is_hex_def is09_def)

lemma configured_default: "configured_scheme [] = TString (ascii ''yoru'')"
  by (simp add: configured_scheme_def dict_get_def)

lemma hex_to_rgb_samples:
  "hex_to_rgb ascii_only (ascii ''#1a1b26'') = Inr (26, 27, 38)"
  "hex_to_rgb ascii_only (ascii ''#ffffff'') = Inr (255, 255, 255)"
  by (simp_all add: hex_to_rgb_def ascii_def lstrip_hash_def slice2_def py_int_def
      skip_sign_def skip_prefix_def ascii_isspace_def digit_value_def)

theorem get_bg_color_precedence_witness:
  "wf_colors (scheme_with_bg ''yoru'' ''#1a1b26'') \<and> wf_colors (scheme_with_bg ''yoru'' ''#ffffff'')
   \<and> wf_colors [] \<and> configured_scheme [] = TString (ascii ''yoru'')
   \<and> get_bg_color ascii_only [] (scheme_with_bg ''yoru'' ''#1a1b26'')
        (scheme_with_bg ''yoru'' ''#ffffff'') = Inr (26, 27, 38)
   \<and> get_bg_color ascii_only [] [] (scheme_with_bg ''yoru'' ''#ffffff'') = Inr (255, 255, 255)
   \<and> get_bg_color ascii_only [] [] [] = Inr (12, 14, 15)"
proof -
  have e1: "map_of (scheme_with_bg ''yoru'' ''#1a1b26'') (ascii ''yoru'')
      = Some (snd (hd (scheme_with_bg ''yoru'' ''#1a1b26'')))
    \<and> entry_bg (snd (hd (scheme_with_bg ''yoru'' ''#1a1b26''))) = Some (TString (ascii ''#1a1b26''))"
    by (simp add: scheme_with_bg_def entry_bg_def ascii_def)
  have e2: "map_of [] (ascii ''yoru'') = (None :: toml option)
    \<and> map_of (scheme_with_bg ''yoru'' ''#ffffff'') (ascii ''yoru'')
      = Some (snd (hd (scheme_with_bg ''yoru'' ''#ffffff'')))
    \<and> entry_bg (snd (hd (scheme_with_bg ''yoru'' ''#ffffff''))) = Some (TString (ascii ''#ffffff''))"
    by (simp add: scheme_with_bg_def entry_bg_def ascii_def)
  have "get_bg_color ascii_only [] (scheme_with_bg ''yoru'' ''#1a1b26'')
      (scheme_with_bg ''yoru'' ''#ffffff'') = hex_to_rgb ascii_only (ascii ''#1a1b26'')"
    using get_bg_color_precedence [OF wf_scheme_with_bg wf_scheme_white configured_default,
        of ascii_only] e1 by blast
  moreover have "get_bg_color ascii_only [] [] (scheme_with_bg ''yoru'' ''#ffffff'')
      = hex_to_rgb ascii_only (ascii ''#ffffff'')"
    using get_bg_color_precedence [OF wf_no_scheme wf_scheme_white configured_default,
        of ascii_only] e2 by blast
  moreover have "get_bg_color ascii_only [] [] [] = Inr (12, 14, 15)"
    using get_bg_color_precedence [OF wf_no_scheme wf_no_scheme configured_default,
        of ascii_only] by simp
  ultimately show ?thesis
    using wf_scheme_with_bg wf_scheme_white wf_no_scheme configured_default
    by (simp add: hex_to_rgb_samples)
qed

text \<open>
  Claim C10. When the local table has the configured scheme and that entry (a table whose
  \<open>default_colors\<close>, if present, is a table) has no \<open>bg\<close> value, get_bg_color returns
  (12, 14, 15) whatever the library table \<open>gifos_colors\<close> holds: the library table is not
  consulted.
\<close>

theorem get_bg_color_local_without_bg:
  assumes "configured_scheme general = TString scheme"
    and "map_of local_colors scheme = Some entry"
    and "wf_entry entry" and "entry_bg entry = None"
  shows "get_bg_color U general local_colors gifos_colors = Inr (12, 14, 15)"
  using assms by (simp add: get_bg_color_def configured_scheme_def bg_of_entry_missing)

theorem get_bg_color_local_without_bg_witness:
  "configured_scheme [] = TString (ascii ''yoru'')
   \<and> map_of (scheme_without_bg ''yoru'') (ascii ''yoru'') = Some (snd (hd (scheme_without_bg ''yoru'')))
   \<and> wf_entry (snd (hd (scheme_without_bg ''yoru'')))
   \<and> entry_bg (snd (hd (scheme_without_bg ''yoru''))) = None
   \<and> entry_bg (snd (hd (scheme_with_bg ''yoru'' ''#ffffff''))) = Some (TString (ascii ''#ffffff''))
   \<and> get_bg_color ascii_only [] (scheme_without_bg ''yoru'') (scheme_with_bg ''yoru'' ''#ffffff'')
       = Inr (12, 14, 15)"
proof -
  have m: "map_of (scheme_without_bg ''yoru'') (ascii ''yoru'')
      = Some (snd (hd (scheme_without_bg ''yoru'')))"
    by (simp add: scheme_without_bg_def ascii_def)
  have w: "wf_entry (snd (hd (scheme_without_bg ''yoru'')))"
    by (simp add: scheme_without_bg_def wf_entry_def ascii_def)
  have n: "entry_bg (snd (hd (scheme_without_bg ''yoru''))) = None"
    by (simp add: scheme_without_bg_def entry_bg_def ascii_def)
  have g: "entry_bg (snd (hd (scheme_with_bg ''yoru'' ''#ffffff''))) = Some (TString (ascii ''#ffffff''))"
    by (simp add: scheme_with_bg_def entry_bg_def ascii_def)
  from get_bg_color_local_without_bg [OF configured_default m w n, of ascii_only]
    configured_default m w n g
  show ?thesis by simp
qed


section \<open>Properties of re_split\<close>

lemma re_split_no_digit:
  "list_all (\<lambda>c. \<not> is09 c) t \<Longrightarrow> re_split t = [t]"
  by (subst re_split.simps) (simp add: list_all_iff Let_def)

lemma re_split_alternating: "alternating False (re_split s)"
proof (induction s rule: re_split.induct)
  case (1 s)
  let ?rest = "dropWhile (\<lambda>c. \<not> is09 c) s"
  have t: "list_all (\<lambda>c. \<not> is09 c) (takeWhile (\<lambda>c. \<not> is09 c) s)"
    by (auto simp: list_all_iff dest: set_takeWhileD)
  show ?case
  proof (cases "?rest = []")
    case True
    then show ?thesis using t by (subst re_split.simps) (simp add: Let_def)
  next
    case False
    then have "\<not> \<not> is09 (hd ?rest)" by (rule hd_dropWhile)
    then have ne: "takeWhile is09 ?rest \<noteq> []"
      using False by (cases ?rest) auto
    have d: "list_all is09 (takeWhile is09 ?rest)"
      by (auto simp: list_all_iff dest: set_takeWhileD)
    have "alternating False (re_split (dropWhile is09 ?rest))"
      using "1.IH" [OF refl refl False] .
    then show ?thesis
      using False t ne d by (subst re_split.simps) (simp add: Let_def)
  qed
qed

lemma re_split_append:
  assumes "p = [] \<or> \<not> is09 (last p)" and "d \<noteq> []" and "list_all is09 d"
    and "s = [] \<or> \<not> is09 (hd s)"
  shows "re_split (p @ d @ s) = re_split p @ d # re_split s"
  using assms(1)
proof (induction p rule: re_split.induct)
  case (1 p)
  let ?t = "takeWhile (\<lambda>c. \<not> is09 c) p"
  let ?rest = "dropWhile (\<lambda>c. \<not> is09 c) p"
  obtain x xs where d: "d = x # xs" and x: "is09 x"
    using assms(2,3) by (cases d) auto
  have ds: "takeWhile is09 (d @ s) = d" "dropWhile is09 (d @ s) = s"
    using assms(3,4) by (cases s; simp add: list_all_iff)+
  have nd: "dropWhile (\<lambda>c. \<not> is09 c) (d @ s) = d @ s" "takeWhile (\<lambda>c. \<not> is09 c) (d @ s) = []"
    using x by (simp_all add: d)
  show ?case
  proof (cases "?rest = []")
    case True
    then have all: "\<forall>c\<in>set p. \<not> is09 c"
      by (simp add: dropWhile_eq_Nil_conv)
    then have tw: "takeWhile (\<lambda>c. \<not> is09 c) (p @ d @ s) = p"
      "dropWhile (\<lambda>c. \<not> is09 c) (p @ d @ s) = d @ s"
      using nd by (simp_all add: takeWhile_append2 dropWhile_append2)
    have dne: "d @ s \<noteq> []" using assms(2) by simp
    have "re_split (p @ d @ s) = p # d # re_split s"
      by (subst re_split.simps) (simp only: tw ds Let_def dne if_False)
    moreover have "re_split p = [p]"
      using all by (simp add: re_split_no_digit list_all_iff)
    ultimately show ?thesis by simp
  next
    case False
    let ?dd = "takeWhile is09 ?rest"
    let ?q = "dropWhile is09 ?rest"
    have p: "p = ?t @ ?dd @ ?q" by simp
    have pne: "p \<noteq> []" using False by auto
    have lp: "last p = last ?rest"
    proof -
      have "last (?t @ ?rest) = last ?rest" using False by (rule last_appendR)
      then show ?thesis by simp
    qed
    have q_ne: "?q \<noteq> []"
    proof
      assume "?q = []"
      then have "\<forall>c\<in>set ?rest. is09 c" unfolding dropWhile_eq_Nil_conv .
      moreover have "last ?rest \<in> set ?rest" using False by (rule last_in_set)
      ultimately have "is09 (last ?rest)" by blast
      then have "is09 (last p)" by (simp only: lp)
      with "1.prems" pne show False by blast
    qed
    then obtain y where y: "y \<in> set ?rest" "\<not> is09 y"
      unfolding dropWhile_eq_Nil_conv by blast
    have lastq: "?q = [] \<or> \<not> is09 (last ?q)"
    proof -
      have "last (?dd @ ?q) = last ?q" using q_ne by (rule last_appendR)
      then have "last ?rest = last ?q" by simp
      then have "last p = last ?q" by (simp only: lp)
      with "1.prems" pne show ?thesis by metis
    qed
    have ex: "\<exists>c\<in>set p. \<not> \<not> is09 c"
      using False by (auto simp: dropWhile_eq_Nil_conv)
    then obtain z where z: "z \<in> set p" "\<not> \<not> is09 z" by blast
    have tw: "takeWhile (\<lambda>c. \<not> is09 c) (p @ d @ s) = ?t"
      "dropWhile (\<lambda>c. \<not> is09 c) (p @ d @ s) = ?rest @ d @ s"
      using z by (simp_all add: takeWhile_append1 dropWhile_append1)
    have tw2: "takeWhile is09 (?rest @ d @ s) = ?dd"
      "dropWhile is09 (?rest @ d @ s) = ?q @ d @ s"
      using y by (simp_all add: takeWhile_append1 dropWhile_append1)
    have "re_split (p @ d @ s) = ?t # ?dd # re_split (?q @ d @ s)"
      using False by (subst re_split.simps) (simp add: tw tw2 Let_def)
    also have "re_split (?q @ d @ s) = re_split ?q @ d # re_split s"
      using "1.IH" [OF refl refl False lastq] .
    also have "?t # ?dd # (re_split ?q @ d # re_split s) = re_split p @ d # re_split s"
      using False by (subst (2) re_split.simps) (simp add: Let_def)
    finally show ?thesis .
  qed
qed

section \<open>The key of a plain name\<close>

lemma transform_ascii:
  "list_all (\<lambda>c. c < 128) s \<Longrightarrow> transform_decimal_and_space U s = s"
  by (induction s) auto

lemma is09_facts:
  "is09 c \<Longrightarrow> c < 128 \<and> c \<noteq> 95 \<and> c \<noteq> 43 \<and> c \<noteq> 45 \<and> \<not> ascii_isspace c
     \<and> digit_value c = c - 48 \<and> digit_value c < 10"
  by (auto simp: is09_def ascii_isspace_def digit_value_def)

lemma scan_digits_run:
  "list_all is09 d \<Longrightarrow>
   scan_digits 10 False acc n d = Some (foldl (\<lambda>a c. a * 10 + (c - 48)) acc d, n + length d, [])"
proof (induction d arbitrary: acc n)
  case Nil
  show ?case by simp
next
  case (Cons c d)
  then have c: "is09 c" and d: "list_all is09 d" by simp_all
  show ?case using is09_facts [OF c] Cons.IH [OF d] by simp
qed

lemma py_int_digits:
  assumes "d \<noteq> []" and "list_all is09 d"
  shows "py_int U 10 d = Inr (int (decimal_value d))"
proof -
  obtain x xs where d: "d = x # xs" and x: "is09 x"
    using assms by (cases d) auto
  have a: "list_all (\<lambda>c. c < 128) d"
    using assms(2) is09_facts by (auto simp: list_all_iff)
  have t: "transform_decimal_and_space U d = d" by (rule transform_ascii [OF a])
  have sp: "dropWhile ascii_isspace d = d" using is09_facts [OF x] by (simp add: d)
  have sg: "skip_sign d = (1, d)" using is09_facts [OF x] by (simp add: d skip_sign_def)
  have pf: "skip_prefix 10 d = d" by (simp add: skip_prefix_def split: list.splits)
  have hd: "hd d \<noteq> 95" using is09_facts [OF x] by (simp add: d)
  show ?thesis
    using hd assms(1)
    by (simp add: py_int_def t sp sg pf scan_digits_run [OF assms(2)] decimal_value_def)
qed

lemma isdigit_run: "d \<noteq> [] \<Longrightarrow> list_all is09 d \<Longrightarrow> isdigit U d"
  using is09_facts by (auto simp: isdigit_def isdigit_char_def list_all_iff)

lemma token_of_digits:
  "d \<noteq> [] \<Longrightarrow> list_all is09 d \<Longrightarrow> token_of U d = Inr (TInt (int (decimal_value d)))"
  by (simp add: token_of_def isdigit_run py_int_digits)

lemma token_of_text:
  assumes "list_all (\<lambda>c. \<not> is09 c) t" and "plain U t"
  shows "token_of U t = Inr (TStr (lower U t))"
proof -
  have "\<not> isdigit U t"
    using assms by (cases t) (auto simp: isdigit_def plain_def)
  then show ?thesis by (simp add: token_of_def)
qed

lemma plain_pieces:
  "plain U s \<Longrightarrow> list_all (plain U) (re_split s)"
proof (induction s rule: re_split.induct)
  case (1 s)
  let ?rest = "dropWhile (\<lambda>c. \<not> is09 c) s"
  have sub: "plain U (takeWhile P s)" "plain U (dropWhile P s)" for P
    using "1.prems" by (auto simp: plain_def list_all_iff dest: set_takeWhileD set_dropWhileD)
  have sub2: "plain U (takeWhile P (dropWhile Q s))" "plain U (dropWhile P (dropWhile Q s))" for P Q
    using "1.prems" by (auto simp: plain_def list_all_iff dest!: set_takeWhileD set_dropWhileD)
  show ?case
  proof (cases "?rest = []")
    case True
    then show ?thesis using sub by (subst re_split.simps) (simp add: Let_def)
  next
    case False
    have "list_all (plain U) (re_split (dropWhile is09 ?rest))"
      using "1.IH" [OF refl refl False sub2(2)] .
    then show ?thesis
      using False sub sub2 by (subst re_split.simps) (simp add: Let_def)
  qed
qed

lemma collect_pieces:
  "alternating b ps \<Longrightarrow> list_all (plain U) ps \<Longrightarrow>
   \<exists>k. collect (token_of U) ps = Inr k \<and> well_typed b k \<and> length k = length ps"
proof (induction b ps rule: alternating.induct)
  case (1 b)
  show ?case by simp
next
  case (2 t ts)
  then obtain k where "collect (token_of U) ts = Inr k" "well_typed True k" "length k = length ts"
    by auto
  moreover have "token_of U t = Inr (TStr (lower U t))"
    using 2 by (simp add: token_of_text)
  ultimately show ?case by simp
next
  case (3 t ts)
  then obtain k where "collect (token_of U) ts = Inr k" "well_typed False k" "length k = length ts"
    by auto
  moreover have "token_of U t = Inr (TInt (int (decimal_value t)))"
    using 3 by (simp add: token_of_digits)
  ultimately show ?case by simp
qed

lemma natural_sort_key_plain:
  assumes "plain U s"
  shows "\<exists>k. natural_sort_key U s = Inr k \<and> well_typed False k"
  using collect_pieces [OF re_split_alternating plain_pieces [OF assms]]
  by (auto simp: natural_sort_key_def)

section \<open>The key of a clean name\<close>

lemma collect_clean:
  "alternating b ps \<Longrightarrow> texts_ok U b ps \<Longrightarrow>
   collect (token_of U) ps = Inr (spec_tokens U b ps)"
proof (induction b ps rule: alternating.induct)
  case (1 b)
  show ?case by simp
next
  case (2 t ts)
  then have "collect (token_of U) ts = Inr (spec_tokens U True ts)" by simp
  moreover have "token_of U t = Inr (TStr (lower U t))"
    using 2 by (simp add: token_of_def)
  ultimately show ?case by simp
next
  case (3 t ts)
  then have "collect (token_of U) ts = Inr (spec_tokens U False ts)" by simp
  moreover have "token_of U t = Inr (TInt (int (decimal_value t)))"
    using 3 by (simp add: token_of_digits)
  ultimately show ?case by simp
qed

lemma spec_tokens_typed: "well_typed b (spec_tokens U b ps)"
  by (induction U b ps rule: spec_tokens.induct) simp_all

lemma spec_key_typed: "well_typed False (spec_key U s)"
  by (simp add: spec_key_def spec_tokens_typed)

lemma natural_sort_key_clean:
  "clean_name U s \<Longrightarrow> natural_sort_key U s = Inr (spec_key U s)"
  using collect_clean [OF re_split_alternating, of U s]
  by (simp add: natural_sort_key_def spec_key_def clean_name_def)

lemma texts_ok_plain:
  "alternating b ps \<Longrightarrow> list_all (plain U) ps \<Longrightarrow> texts_ok U b ps"
proof (induction b ps rule: alternating.induct)
  case (1 b)
  show ?case by simp
next
  case (2 t ts)
  then have "token_of U t = Inr (TStr (lower U t))" by (simp add: token_of_text)
  then have "\<not> isdigit U t" by (auto simp: token_of_def map_sum_def split: sum.splits if_splits)
  with 2 show ?case by simp
next
  case (3 t ts)
  then show ?case by simp
qed

lemma plain_clean: "plain U s \<Longrightarrow> clean_name U s"
  using texts_ok_plain [OF re_split_alternating plain_pieces] by (simp add: clean_name_def)

section \<open>Comparing well-typed keys\<close>

lemma enc_eq: "well_typed b (x # xs) \<Longrightarrow> well_typed b (y # ys) \<Longrightarrow> (enc x = enc y) = (x = y)"
  by (cases b; cases x; cases y) (auto simp: enc_def)

lemma token_lt_enc:
  "well_typed b (x # xs) \<Longrightarrow> well_typed b (y # ys) \<Longrightarrow> token_lt x y = Inr (enc x < enc y)"
  by (cases b; cases x; cases y) (auto simp: enc_def)

lemma well_typed_tl: "well_typed b (x # xs) \<Longrightarrow> well_typed (\<not> b) xs"
  by (cases b; cases x) auto

lemma key_lt_enc:
  "well_typed b xs \<Longrightarrow> well_typed b ys \<Longrightarrow> key_lt xs ys = Inr (map enc xs < map enc ys)"
proof (induction xs ys arbitrary: b rule: key_lt.induct)
  case (4 x xs y ys)
  show ?case
  proof (cases "x = y")
    case True
    have "key_lt xs ys = Inr (map enc xs < map enc ys)"
      using "4.IH" [OF True well_typed_tl [OF "4.prems"(1)] well_typed_tl [OF "4.prems"(2)]] .
    with True show ?thesis by simp
  next
    case False
    then have "enc x \<noteq> enc y" using enc_eq [OF "4.prems"] by simp
    with False show ?thesis using token_lt_enc [OF "4.prems"] by auto
  qed
qed simp_all

section \<open>Sorting by the key\<close>

lemma insort_keyed_enc:
  assumes "well_typed False (fst x)" and "list_all (\<lambda>kv. well_typed False (fst kv)) ys"
  shows "insort_keyed x ys = Inr (insort_key ekey x ys)"
  using assms(2)
proof (induction ys)
  case Nil
  show ?case by simp
next
  case (Cons y ys)
  then have y: "well_typed False (fst y)" and ys: "list_all (\<lambda>kv. well_typed False (fst kv)) ys"
    by simp_all
  have "key_lt (fst y) (fst x) = Inr (map enc (fst y) < map enc (fst x))"
    by (rule key_lt_enc [OF y assms(1)])
  then show ?case using Cons.IH [OF ys]
    by (cases "map enc (fst y) < map enc (fst x)") (auto dest: leD simp: not_less)
qed

lemma sort_keyed_enc:
  assumes "list_all (\<lambda>kv. well_typed False (fst kv)) xs"
  shows "sort_keyed xs = Inr (sort_key ekey xs)"
  using assms
proof (induction xs)
  case Nil
  show ?case by simp
next
  case (Cons x xs)
  then have x: "well_typed False (fst x)" and xs: "list_all (\<lambda>kv. well_typed False (fst kv)) xs"
    by simp_all
  have "list_all (\<lambda>kv. well_typed False (fst kv)) (sort_key ekey xs)"
    using xs by (simp add: list_all_iff)
  then show ?case using Cons.IH [OF xs] by (simp add: insort_keyed_enc [OF x])
qed

lemma natural_sort_key_of:
  "plain U s \<Longrightarrow> natural_sort_key U s = Inr (key_of U s) \<and> well_typed False (key_of U s)"
  using natural_sort_key_plain [of U s] by (auto simp: key_of_def)

lemma insort_key_map:
  "insort_key f (g x) (map g ys) = map g (insort_key (\<lambda>n. f (g n)) x ys)"
  by (induction ys) auto

lemma sort_key_map:
  "sort_key f (map g xs) = map g (sort_key (\<lambda>n. f (g n)) xs)"
  by (induction xs) (auto simp: insort_key_map)

lemma collect_with_key:
  "list_all (clean_name U) names \<Longrightarrow>
   collect (with_key U) names = Inr (map (\<lambda>n. (spec_key U n, n)) names)"
  by (induction names) (auto simp: with_key_def natural_sort_key_clean)

lemma sort_natural_clean:
  assumes "list_all (clean_name U) names"
  shows "sort_natural U names = Inr (sort_key (natural_rank U) names)"
proof -
  let ?g = "\<lambda>n. (spec_key U n, n)"
  have r: "natural_rank U = (\<lambda>n. map enc (spec_key U n))"
    by (simp add: natural_rank_def fun_eq_iff)
  have wt: "list_all (\<lambda>kv. well_typed False (fst kv)) (map ?g names)"
    by (simp add: list_all_iff spec_key_typed)
  have "sort_keyed (map ?g names) = Inr (sort_key ekey (map ?g names))"
    by (rule sort_keyed_enc [OF wt])
  also have "sort_key ekey (map ?g names) = map ?g (sort_key (natural_rank U) names)"
    by (simp add: sort_key_map r)
  finally show ?thesis
    by (simp add: sort_natural_def collect_with_key [OF assms] comp_def)
qed

section \<open>Properties of the natural order\<close>

lemma collect_append:
  "collect f xs = Inr a \<Longrightarrow> collect f ys = Inr b \<Longrightarrow> collect f (xs @ ys) = Inr (a @ b)"
  by (induction xs arbitrary: a) (auto split: sum.splits)

lemma key_lt_refl: "key_lt k k = Inr False"
  by (induction k) auto

lemma key_lt_common_prefix: "key_lt (k @ a) (k @ b) = key_lt a b"
  by (induction k) auto

lemma plain_key:
  assumes "plain U s"
  shows "collect (token_of U) (re_split s) = Inr (key_of U s)"
  using natural_sort_key_of [OF assms] by (simp add: natural_sort_key_def)

lemma key_of_run:
  assumes "plain U p" and "plain U s"
    and "p = [] \<or> \<not> is09 (last p)" and "d \<noteq> []" and "list_all is09 d"
    and "s = [] \<or> \<not> is09 (hd s)"
  shows "natural_sort_key U (p @ d @ s)
       = Inr (key_of U p @ TInt (int (decimal_value d)) # key_of U s)"
proof -
  have "collect (token_of U) (d # re_split s)
      = Inr (TInt (int (decimal_value d)) # key_of U s)"
    by (simp add: token_of_digits [OF assms(4,5)] plain_key [OF assms(2)])
  then have "collect (token_of U) (re_split p @ d # re_split s)
      = Inr (key_of U p @ TInt (int (decimal_value d)) # key_of U s)"
    by (rule collect_append [OF plain_key [OF assms(1)]])
  then show ?thesis
    by (simp add: natural_sort_key_def re_split_append [OF assms(3,4,5,6)])
qed

lemma key_lt_run:
  "key_lt (kp @ TInt (int v1) # ks) (kp @ TInt (int v2) # ks) = Inr (v1 < v2)"
  by (simp add: key_lt_common_prefix key_lt_refl)

lemma sort_natural_pair:
  assumes "natural_sort_key U a = Inr ka" and "natural_sort_key U b = Inr kb"
    and "key_lt kb ka = Inr c"
  shows "sort_natural U [a, b] = Inr (if c then [b, a] else [a, b])"
  using assms by (simp add: sort_natural_def with_key_def)

text \<open>
  Claim C2. Two names that differ only in one maximal run of ASCII digits, \<open>p @ d1 @ s\<close> and
  \<open>p @ d2 @ s\<close> with plain \<open>p\<close> and \<open>s\<close>, have keys, the keys compare as the numbers the
  two runs denote, and sorting the two names puts the one with the smaller number first
  (the first one when the numbers are equal). So \<open>frame_2.png\<close> comes before
  \<open>frame_10.png\<close>, which is not their order as strings.
\<close>

theorem natural_sort_numeric:
  assumes "plain U p" and "plain U s"
    and "p = [] \<or> \<not> is09 (last p)" and "s = [] \<or> \<not> is09 (hd s)"
    and "d1 \<noteq> []" and "list_all is09 d1" and "d2 \<noteq> []" and "list_all is09 d2"
  shows "\<exists>k1 k2. natural_sort_key U (p @ d1 @ s) = Inr k1
           \<and> natural_sort_key U (p @ d2 @ s) = Inr k2
           \<and> key_lt k1 k2 = Inr (decimal_value d1 < decimal_value d2)
           \<and> key_lt k2 k1 = Inr (decimal_value d2 < decimal_value d1)
           \<and> sort_natural U [p @ d1 @ s, p @ d2 @ s]
               = Inr (if decimal_value d2 < decimal_value d1
                      then [p @ d2 @ s, p @ d1 @ s] else [p @ d1 @ s, p @ d2 @ s])"
proof -
  let ?k1 = "key_of U p @ TInt (int (decimal_value d1)) # key_of U s"
  let ?k2 = "key_of U p @ TInt (int (decimal_value d2)) # key_of U s"
  have k1: "natural_sort_key U (p @ d1 @ s) = Inr ?k1"
    by (rule key_of_run [OF assms(1,2,3,5,6,4)])
  have k2: "natural_sort_key U (p @ d2 @ s) = Inr ?k2"
    by (rule key_of_run [OF assms(1,2,3,7,8,4)])
  have lt: "key_lt ?k1 ?k2 = Inr (decimal_value d1 < decimal_value d2)"
    "key_lt ?k2 ?k1 = Inr (decimal_value d2 < decimal_value d1)"
    by (rule key_lt_run)+
  from k1 k2 lt sort_natural_pair [OF k1 k2 lt(2)] show ?thesis by blast
qed

lemma frame_name_parts:
  "plain ascii_only (ascii ''frame_'')" "plain ascii_only (ascii ''.png'')"
  "ascii ''frame_'' = [] \<or> \<not> is09 (last (ascii ''frame_''))"
  "ascii ''.png'' = [] \<or> \<not> is09 (hd (ascii ''.png''))"
  "ascii ''2'' \<noteq> []" "list_all is09 (ascii ''2'')"
  "ascii ''10'' \<noteq> []" "list_all is09 (ascii ''10'')"
  by (simp_all add: plain_def ascii_def is09_def isdigit_char_def)

lemma frame_name_values:
  "decimal_value (ascii ''2'') = 2" "decimal_value (ascii ''10'') = 10"
  "ascii ''frame_'' @ ascii ''10'' @ ascii ''.png'' = ascii ''frame_10.png''"
  "ascii ''frame_'' @ ascii ''2'' @ ascii ''.png'' = ascii ''frame_2.png''"
  by (simp_all add: decimal_value_def ascii_def)

theorem natural_sort_numeric_witness:
  "plain ascii_only (ascii ''frame_'') \<and> plain ascii_only (ascii ''.png'')
   \<and> (ascii ''frame_'' = [] \<or> \<not> is09 (last (ascii ''frame_'')))
   \<and> (ascii ''.png'' = [] \<or> \<not> is09 (hd (ascii ''.png'')))
   \<and> ascii ''10'' \<noteq> [] \<and> list_all is09 (ascii ''10'')
   \<and> ascii ''2'' \<noteq> [] \<and> list_all is09 (ascii ''2'')
   \<and> sort_natural ascii_only [ascii ''frame_10.png'', ascii ''frame_2.png'']
       = Inr [ascii ''frame_2.png'', ascii ''frame_10.png'']
   \<and> \<not> ascii ''frame_2.png'' < ascii ''frame_10.png''"
proof -
  from natural_sort_numeric [OF frame_name_parts(1,2,3,4,7,8,5,6)]
  have "sort_natural ascii_only [ascii ''frame_10.png'', ascii ''frame_2.png'']
      = Inr [ascii ''frame_2.png'', ascii ''frame_10.png'']"
    by (auto simp: frame_name_values)
  moreover have "\<not> ascii ''frame_2.png'' < ascii ''frame_10.png''"
    by (simp add: ascii_def)
  ultimately show ?thesis using frame_name_parts by simp
qed

text \<open>
  Claim C9. The code fails the claim at a name with a digit character outside \<open>0..9\<close>.
  \<open>re.split\<close> cuts the name at the runs of \<open>[0-9]\<close>, but the pieces are told apart with
  \<open>str.isdigit\<close>, which also accepts the Arabic-Indic digit three (U+0663). The name
  U+0663 followed by \<open>1.png\<close> is split into the pieces U+0663, \<open>1\<close> and \<open>.png\<close>; the
  first piece passes \<open>isdigit\<close> and becomes the integer 3. So the key has an integer at
  index 0, where the key of \<open>a1.png\<close> has a string, comparing the two keys raises
  TypeError, and so does sorting the two names.
\<close>

theorem natural_sort_key_foreign_digit:
  "natural_sort_key sample_unicode (1635 # ascii ''1.png'')
     = Inr [TInt 3, TInt 1, TStr (ascii ''.png'')]
   \<and> \<not> well_typed False [TInt 3, TInt 1, TStr (ascii ''.png'')]
   \<and> natural_sort_key sample_unicode (ascii ''a1.png'')
       = Inr [TStr (ascii ''a''), TInt 1, TStr (ascii ''.png'')]
   \<and> key_lt [TInt 3, TInt 1, TStr (ascii ''.png'')] [TStr (ascii ''a''), TInt 1, TStr (ascii ''.png'')]
       = Inl TypeError
   \<and> sort_natural sample_unicode [1635 # ascii ''1.png'', ascii ''a1.png''] = Inl TypeError"
  by code_simp

section \<open>Properties of create_gif_from_frames\<close>

lemma sort_natural_Nil: "sort_natural U [] = Inr []"
  by (simp add: sort_natural_def)

text \<open>
  Claim C4. When the directory \<open>frames\<close> can be listed and none of its names ends in
  \<open>.png\<close>, create_gif_from_frames returns without an exception; all it does is print
  "No frames found!": \<open>output.gif\<close> is left as it was, nothing is written.
\<close>

theorem create_gif_no_frames:
  assumes "listdir_frames w = Some names"
    and "filter (\<lambda>f. endswith f (ascii ''.png'')) names = []"
  shows "create_gif_from_frames U w = (None, print NoFramesFound w)
       \<and> output_file (print NoFramesFound w) = output_file w
       \<and> stdout (print NoFramesFound w) = stdout w @ [NoFramesFound]"
  using assms by (simp add: create_gif_from_frames_def sort_natural_Nil print_def)

theorem create_gif_no_frames_witness:
  "listdir_frames world_without_frames = Some [ascii ''notes.txt'', ascii ''frame_1.jpg'']
   \<and> filter (\<lambda>f. endswith f (ascii ''.png'')) [ascii ''notes.txt'', ascii ''frame_1.jpg''] = []
   \<and> fst (create_gif_from_frames ascii_only world_without_frames) = None
   \<and> output_file (snd (create_gif_from_frames ascii_only world_without_frames)) = None
   \<and> stdout (snd (create_gif_from_frames ascii_only world_without_frames)) = [NoFramesFound]"
proof -
  have l: "listdir_frames world_without_frames = Some [ascii ''notes.txt'', ascii ''frame_1.jpg'']"
    by (simp add: world_without_frames_def)
  have f: "filter (\<lambda>f. endswith f (ascii ''.png'')) [ascii ''notes.txt'', ascii ''frame_1.jpg''] = []"
    by (simp add: endswith_def ascii_def)
  have o: "output_file world_without_frames = None" "stdout world_without_frames = []"
    by (simp_all add: world_without_frames_def)
  from create_gif_no_frames [OF l f, of ascii_only] l f o show ?thesis by simp
qed

lemma frame_duration_value: "frame_duration = 66"
  by (simp add: frame_duration_def int_of_float_def fps_def)

lemma py_round_value: "py_round (1000 / real fps) = 67"
  by (simp add: py_round_def fps_def Let_def)

lemma merge_frames_pictures: "map fst (merge_frames xs) = remdups_adj (map fst xs)"
  by (induction xs rule: merge_frames.induct) auto

lemma write_gif_pictures: "map fst (gif_frames (write_gif c)) = remdups_adj (call_frames c)"
  by (simp add: write_gif_def comp_def merge_frames_pictures)

lemma write_gif_loop: "gif_loop (write_gif c) = call_loop c"
  by (simp add: write_gif_def)

lemma load_frames_ok:
  assumes "list_all (\<lambda>n. frame_of fs n \<noteq> None) names"
  shows "\<exists>new w'. load_frames fs N i names frames w = (Inr (frames @ new), w')
           \<and> map Some new = map (frame_of fs) names
           \<and> output_file w' = output_file w \<and> encoded_size w' = encoded_size w
           \<and> save_calls w' = save_calls w"
  using assms
proof (induction names arbitrary: i frames w)
  case Nil
  show ?case by simp
next
  case (Cons n names)
  then obtain img frame where
    img: "image_open fs (path_join (ascii ''frames'') n) = Some img"
    and frame: "convert_p fs img 256 = Some frame"
    by (auto simp: frame_of_def split: option.splits)
  let ?w = "if (i + 1) mod 100 = 0 then print (LoadedFrames (i + 1) N) w else w"
  have w: "output_file ?w = output_file w" "encoded_size ?w = encoded_size w"
    "save_calls ?w = save_calls w"
    by (simp_all add: print_def)
  from Cons.prems have "list_all (\<lambda>n. frame_of fs n \<noteq> None) names"
    by simp
  from Cons.IH [OF this, of "i + 1" "frames @ [frame]" ?w]
  obtain new w' where
    l: "load_frames fs N (i + 1) names (frames @ [frame]) ?w
        = (Inr ((frames @ [frame]) @ new), w')"
    and m: "map Some new = map (frame_of fs) names"
    and o: "output_file w' = output_file ?w" "encoded_size w' = encoded_size ?w"
      "save_calls w' = save_calls ?w"
    by blast
  have "load_frames fs N i (n # names) frames w = (Inr (frames @ (frame # new)), w')"
    using l img frame by simp
  moreover have "map Some (frame # new) = map (frame_of fs) (n # names)"
    using m img frame by (simp add: frame_of_def)
  ultimately show ?case using o w by metis
qed

lemma create_gif_ok:
  assumes "listdir_frames w = Some names"
    and "sort_natural U (png_names names) = Inr order" and "order \<noteq> []"
    and "list_all (\<lambda>n. frame_of w n \<noteq> None) order"
  shows "\<exists>frames. map Some frames = map (frame_of w) order
           \<and> fst (create_gif_from_frames U w) = None
           \<and> save_calls (snd (create_gif_from_frames U w))
               = save_calls w @ [\<lparr>call_frames = frames, call_duration = frame_duration, call_loop = 0\<rparr>]
           \<and> written_gif (create_gif_from_frames U w)
               = Some (write_gif \<lparr>call_frames = frames, call_duration = frame_duration, call_loop = 0\<rparr>)"
proof -
  let ?w0 = "print (FoundFrames (length order) fps) w"
  from load_frames_ok [OF assms(4), of "length order" 0 "[]" ?w0]
  obtain new w1 where l: "load_frames w (length order) 0 order [] ?w0 = (Inr new, w1)"
    and m: "map Some new = map (frame_of w) order"
    and sc: "save_calls w1 = save_calls ?w0"
    by auto
  from m have len: "length new = length order" by (metis length_map)
  with assms(3) obtain first others where n: "new = first # others"
    by (cases new) auto
  let ?w2 = "save_gif first others frame_duration 0 (print SavingGif w1)"
  have c: "create_gif_from_frames U w
      = (None, print (SizeReport (case output_file ?w2 of Some f \<Rightarrow> file_size f | None \<Rightarrow> 0)) ?w2)"
    using assms(1,2,3) l n
    by (simp add: create_gif_from_frames_def png_names_def Let_def)
  have "written_gif (create_gif_from_frames U w)
      = Some (write_gif \<lparr>call_frames = new, call_duration = frame_duration, call_loop = 0\<rparr>)"
    unfolding c by (simp add: written_gif_def print_def save_gif_def Let_def n)
  moreover have "save_calls (snd (create_gif_from_frames U w))
      = save_calls w @ [\<lparr>call_frames = new, call_duration = frame_duration, call_loop = 0\<rparr>]"
    unfolding c using sc by (simp add: print_def save_gif_def Let_def n)
  moreover have "fst (create_gif_from_frames U w) = None"
    unfolding c by simp
  ultimately show ?thesis using m by blast
qed

lemma sorted_frames:
  assumes "list_all (clean_name U) (png_names names)" and "png_names names \<noteq> []"
    and "list_all (\<lambda>n. frame_of w n \<noteq> None) (png_names names)"
  shows "sort_natural U (png_names names) = Inr (sort_key (natural_rank U) (png_names names))"
    and "sort_key (natural_rank U) (png_names names) \<noteq> []"
    and "list_all (\<lambda>n. frame_of w n \<noteq> None) (sort_key (natural_rank U) (png_names names))"
proof -
  show "sort_natural U (png_names names) = Inr (sort_key (natural_rank U) (png_names names))"
    by (rule sort_natural_clean [OF assms(1)])
  have "length (sort_key (natural_rank U) (png_names names)) = length (png_names names)"
    by simp
  with assms(2) show "sort_key (natural_rank U) (png_names names) \<noteq> []"
    by (metis length_0_conv)
  show "list_all (\<lambda>n. frame_of w n \<noteq> None) (sort_key (natural_rank U) (png_names names))"
    using assms(3) by (simp add: list_all_iff)
qed

lemma create_gif_call:
  assumes "listdir_frames w = Some names"
    and "list_all (clean_name U) (png_names names)" and "png_names names \<noteq> []"
    and "list_all (\<lambda>n. frame_of w n \<noteq> None) (png_names names)"
  shows "\<exists>frames. map Some frames = map (frame_of w) (sort_key (natural_rank U) (png_names names))
           \<and> length frames = length (png_names names)
           \<and> fst (create_gif_from_frames U w) = None
           \<and> save_calls (snd (create_gif_from_frames U w))
               = save_calls w @ [\<lparr>call_frames = frames, call_duration = frame_duration, call_loop = 0\<rparr>]
           \<and> written_gif (create_gif_from_frames U w)
               = Some (write_gif \<lparr>call_frames = frames, call_duration = frame_duration, call_loop = 0\<rparr>)"
proof -
  note o = sorted_frames [OF assms(2,3,4)]
  from create_gif_ok [OF assms(1) o] obtain frames where
    f: "map Some frames = map (frame_of w) (sort_key (natural_rank U) (png_names names))"
      "fst (create_gif_from_frames U w) = None"
      "save_calls (snd (create_gif_from_frames U w))
         = save_calls w @ [\<lparr>call_frames = frames, call_duration = frame_duration, call_loop = 0\<rparr>]"
      "written_gif (create_gif_from_frames U w)
         = Some (write_gif \<lparr>call_frames = frames, call_duration = frame_duration, call_loop = 0\<rparr>)"
    by blast
  have "length (map Some frames) = length (sort_key (natural_rank U) (png_names names))"
    unfolding f(1) by simp
  then have "length frames = length (png_names names)" by simp
  with f show ?thesis by blast
qed

lemma quantized_colours:
  assumes "quantizer_bound w" and "map Some frames = map (frame_of w) order"
  shows "list_all (\<lambda>p. colours p \<le> 256) frames"
  unfolding list_all_iff
proof
  fix p assume "p \<in> set frames"
  then have "Some p \<in> set (map Some frames)" by simp
  then have "Some p \<in> set (map (frame_of w) order)" by (simp only: assms(2))
  then obtain n where "frame_of w n = Some p" by auto
  then obtain img where "convert_p w img 256 = Some p"
    by (auto simp: frame_of_def split: option.splits)
  with assms(1) show "colours p \<le> 256" unfolding quantizer_bound_def by blast
qed

lemma world_with_frames_facts:
  "listdir_frames world_with_frames
     = Some [ascii ''Frame_10.png'', ascii ''notes.txt'', ascii ''frame_2.png'']"
  "png_names [ascii ''Frame_10.png'', ascii ''notes.txt'', ascii ''frame_2.png'']
     = [ascii ''Frame_10.png'', ascii ''frame_2.png'']"
  "list_all (clean_name ascii_only) [ascii ''Frame_10.png'', ascii ''frame_2.png'']"
  "list_all (\<lambda>n. frame_of world_with_frames n \<noteq> None)
     [ascii ''Frame_10.png'', ascii ''frame_2.png'']"
  "frame_of world_with_frames (ascii ''Frame_10.png'') = Some (grey_pixel 10)"
  "frame_of world_with_frames (ascii ''frame_2.png'') = Some (grey_pixel 2)"
  "sort_key (natural_rank ascii_only) [ascii ''Frame_10.png'', ascii ''frame_2.png'']
     = [ascii ''frame_2.png'', ascii ''Frame_10.png'']"
  by code_simp+

lemma world_with_frames_quantizer: "quantizer_bound world_with_frames"
  by (simp add: quantizer_bound_def world_with_frames_def one_pixel_def colours_def grey_pixel_def)

lemma world_with_frames_result:
  "fst (create_gif_from_frames ascii_only world_with_frames) = None"
  "save_calls (snd (create_gif_from_frames ascii_only world_with_frames))
     = [\<lparr>call_frames = [grey_pixel 2, grey_pixel 10], call_duration = 66, call_loop = 0\<rparr>]"
  "written_gif (create_gif_from_frames ascii_only world_with_frames)
     = Some \<lparr>gif_frames = [(grey_pixel 2, 6), (grey_pixel 10, 6)], gif_loop = 0\<rparr>"
  by code_simp+

lemma remdups_adj_same_length:
  "length (remdups_adj xs) = length xs \<Longrightarrow> remdups_adj xs = xs"
proof (induction xs rule: remdups_adj.induct)
  case (3 x y xs)
  show ?case
  proof (cases "x = y")
    case True
    have "length (remdups_adj (x # xs)) \<le> length (x # xs)" by (rule remdups_adj_length)
    with True "3.prems" show ?thesis by simp
  next
    case False
    with 3 show ?thesis by simp
  qed
qed simp_all

lemma written_frame_count:
  "length (gif_frames (write_gif c)) \<le> length (call_frames c)"
  "(length (gif_frames (write_gif c)) = length (call_frames c)) = distinct_adj (call_frames c)"
proof -
  have l: "length (gif_frames (write_gif c)) = length (remdups_adj (call_frames c))"
    using write_gif_pictures [of c] by (metis length_map)
  show "length (gif_frames (write_gif c)) \<le> length (call_frames c)"
    unfolding l by (rule remdups_adj_length)
  show "(length (gif_frames (write_gif c)) = length (call_frames c)) = distinct_adj (call_frames c)"
    unfolding l distinct_adj_altdef using remdups_adj_same_length [of "call_frames c"] by auto
qed

text \<open>
  Claim C5, amended. When the directory lists N \<ge> 1 names ending in \<open>.png\<close>, these
  names are clean, each of the files opens and is quantized, and the quantizer returns no
  more colours than it is asked for, create_gif_from_frames returns normally after exactly
  one call of \<open>save\<close>: with N frames, the frames of the names in natural order (the names
  sorted stably by the key the specification describes), each of at most 256 colours, and
  with the loop count 0. \<open>output.gif\<close> then holds the animation the writer makes of this
  call: it loops forever, and its frames are the frames of the call with every run of equal
  neighbours stored as one frame. So it has at most N frames, and exactly N if and only
  if no two neighbouring frames are equal.
\<close>

theorem create_gif_frames:
  assumes "listdir_frames w = Some names"
    and "list_all (clean_name U) (png_names names)" and "png_names names \<noteq> []"
    and "list_all (\<lambda>n. frame_of w n \<noteq> None) (png_names names)"
    and "quantizer_bound w"
  shows "\<exists>frames g.
             map Some frames = map (frame_of w) (sort_key (natural_rank U) (png_names names))
           \<and> length frames = length (png_names names)
           \<and> list_all (\<lambda>p. colours p \<le> 256) frames
           \<and> fst (create_gif_from_frames U w) = None
           \<and> save_calls (snd (create_gif_from_frames U w))
               = save_calls w @ [\<lparr>call_frames = frames, call_duration = frame_duration, call_loop = 0\<rparr>]
           \<and> written_gif (create_gif_from_frames U w) = Some g
           \<and> map fst (gif_frames g) = remdups_adj frames
           \<and> gif_loop g = 0
           \<and> length (gif_frames g) \<le> length (png_names names)
           \<and> (length (gif_frames g) = length (png_names names)) = distinct_adj frames"
proof -
  from create_gif_call [OF assms(1,2,3,4)] obtain frames where
    f: "map Some frames = map (frame_of w) (sort_key (natural_rank U) (png_names names))"
      "length frames = length (png_names names)"
      "fst (create_gif_from_frames U w) = None"
      "save_calls (snd (create_gif_from_frames U w))
         = save_calls w @ [\<lparr>call_frames = frames, call_duration = frame_duration, call_loop = 0\<rparr>]"
      "written_gif (create_gif_from_frames U w)
         = Some (write_gif \<lparr>call_frames = frames, call_duration = frame_duration, call_loop = 0\<rparr>)"
    by blast
  let ?c = "\<lparr>call_frames = frames, call_duration = frame_duration, call_loop = 0\<rparr>"
  have col: "list_all (\<lambda>p. colours p \<le> 256) frames"
    by (rule quantized_colours [OF assms(5) f(1)])
  have p: "map fst (gif_frames (write_gif ?c)) = remdups_adj frames"
    using write_gif_pictures [of ?c] by simp
  have l: "gif_loop (write_gif ?c) = 0"
    by (simp add: write_gif_loop)
  have n: "length (gif_frames (write_gif ?c)) \<le> length (png_names names)"
    "(length (gif_frames (write_gif ?c)) = length (png_names names)) = distinct_adj frames"
    using written_frame_count [of ?c] f(2) by simp_all
  from f(1,2) col f(3,4,5) p l n show ?thesis by blast
qed

theorem create_gif_frames_witness:
  "listdir_frames world_with_frames
     = Some [ascii ''Frame_10.png'', ascii ''notes.txt'', ascii ''frame_2.png'']
   \<and> png_names [ascii ''Frame_10.png'', ascii ''notes.txt'', ascii ''frame_2.png'']
       = [ascii ''Frame_10.png'', ascii ''frame_2.png'']
   \<and> list_all (clean_name ascii_only) [ascii ''Frame_10.png'', ascii ''frame_2.png'']
   \<and> list_all (\<lambda>n. frame_of world_with_frames n \<noteq> None)
        [ascii ''Frame_10.png'', ascii ''frame_2.png'']
   \<and> quantizer_bound world_with_frames
   \<and> sort_key (natural_rank ascii_only) [ascii ''Frame_10.png'', ascii ''frame_2.png'']
       = [ascii ''frame_2.png'', ascii ''Frame_10.png'']
   \<and> save_calls (snd (create_gif_from_frames ascii_only world_with_frames))
       = [\<lparr>call_frames = [grey_pixel 2, grey_pixel 10], call_duration = 66, call_loop = 0\<rparr>]
   \<and> written_gif (create_gif_from_frames ascii_only world_with_frames)
       = Some \<lparr>gif_frames = [(grey_pixel 2, 6), (grey_pixel 10, 6)], gif_loop = 0\<rparr>
   \<and> list_all (\<lambda>p. colours p \<le> 256) [grey_pixel 2, grey_pixel 10]
   \<and> distinct_adj [grey_pixel 2, grey_pixel 10]"
proof -
  note f = world_with_frames_facts
  note q = world_with_frames_quantizer
  note r = world_with_frames_result
  have ne: "png_names [ascii ''Frame_10.png'', ascii ''notes.txt'', ascii ''frame_2.png''] \<noteq> []"
    by (simp only: f(2)) simp
  from create_gif_frames [OF f(1) f(3) [folded f(2)] ne f(4) [folded f(2)] q]
  obtain frames g where
    g: "map Some frames = map (frame_of world_with_frames) (sort_key (natural_rank ascii_only)
          (png_names [ascii ''Frame_10.png'', ascii ''notes.txt'', ascii ''frame_2.png'']))"
      "list_all (\<lambda>p. colours p \<le> 256) frames"
      "written_gif (create_gif_from_frames ascii_only world_with_frames) = Some g"
      "(length (gif_frames g)
          = length (png_names [ascii ''Frame_10.png'', ascii ''notes.txt'', ascii ''frame_2.png'']))
         = distinct_adj frames"
    by blast
  have "map Some frames = [Some (grey_pixel 2), Some (grey_pixel 10)]"
    using g(1) by (simp only: f(2) f(7) list.map f(5) f(6))
  then have fr: "frames = [grey_pixel 2, grey_pixel 10]"
    by auto
  have gv: "g = \<lparr>gif_frames = [(grey_pixel 2, 6), (grey_pixel 10, 6)], gif_loop = 0\<rparr>"
    using g(3) by (simp only: r(3) option.inject)
  have "length (gif_frames g)
      = length (png_names [ascii ''Frame_10.png'', ascii ''notes.txt'', ascii ''frame_2.png''])"
    by (simp only: f(2) gv) simp
  with g(4) have "distinct_adj frames"
    by blast
  then have d: "distinct_adj [grey_pixel 2, grey_pixel 10]"
    unfolding fr .
  have c: "list_all (\<lambda>p. colours p \<le> 256) [grey_pixel 2, grey_pixel 10]"
    using g(2) by (simp only: fr)
  show ?thesis
    using f(1) f(2) f(3) f(4) q f(7) r(2) r(3) c d by (intro conjI)
qed

text \<open>
  Claim C5 as stated fails. In a directory of three frame files of which the first two
  hold the same picture, the animation written has two frames, not three: the writer
  stores the two equal neighbours as one frame shown for both durations. And in a directory
  of two frame files of which one has a name starting with the Arabic-Indic digit three,
  sorting raises TypeError and no \<open>output.gif\<close> is written.
\<close>

theorem create_gif_merges_equal_frames:
  "listdir_frames world_with_equal_frames
     = Some [ascii ''frame_1.png'', ascii ''frame_2.png'', ascii ''frame_3.png'']
   \<and> length (png_names [ascii ''frame_1.png'', ascii ''frame_2.png'', ascii ''frame_3.png'']) = 3
   \<and> map (frame_of world_with_equal_frames)
        [ascii ''frame_1.png'', ascii ''frame_2.png'', ascii ''frame_3.png'']
       = [Some (grey_pixel 5), Some (grey_pixel 5), Some (grey_pixel 7)]
   \<and> fst (create_gif_from_frames ascii_only world_with_equal_frames) = None
   \<and> written_gif (create_gif_from_frames ascii_only world_with_equal_frames)
       = Some \<lparr>gif_frames = [(grey_pixel 5, 13), (grey_pixel 7, 6)], gif_loop = 0\<rparr>
   \<and> map (frame_of world_with_foreign_digit) [1635 # ascii ''1.png'', ascii ''a1.png'']
       = [Some (grey_pixel 1), Some (grey_pixel 1)]
   \<and> fst (create_gif_from_frames sample_unicode world_with_foreign_digit) = Some TypeError
   \<and> output_file (snd (create_gif_from_frames sample_unicode world_with_foreign_digit)) = None"
  by code_simp

text \<open>
  Claim C1, amended. When the directory lists N \<ge> 1 names ending in \<open>.png\<close>, these
  names are clean and each of the files opens and is quantized, create_gif_from_frames
  returns normally after exactly one call of \<open>save\<close>, for all N frames and with one
  duration: \<open>int(1000 / fps)\<close>, the quotient with its fraction cut off, which is 66
  milliseconds.
\<close>

theorem create_gif_duration:
  assumes "listdir_frames w = Some names"
    and "list_all (clean_name U) (png_names names)" and "png_names names \<noteq> []"
    and "list_all (\<lambda>n. frame_of w n \<noteq> None) (png_names names)"
  shows "\<exists>frames. length frames = length (png_names names)
           \<and> fst (create_gif_from_frames U w) = None
           \<and> save_calls (snd (create_gif_from_frames U w))
               = save_calls w @ [\<lparr>call_frames = frames,
                                  call_duration = int_of_float (1000 / real fps),
                                  call_loop = 0\<rparr>]
           \<and> int_of_float (1000 / real fps) = 66"
proof -
  from create_gif_call [OF assms] obtain frames where
    f: "length frames = length (png_names names)"
      "fst (create_gif_from_frames U w) = None"
      "save_calls (snd (create_gif_from_frames U w))
         = save_calls w @ [\<lparr>call_frames = frames, call_duration = frame_duration, call_loop = 0\<rparr>]"
    by blast
  have d: "int_of_float (1000 / real fps) = 66"
    using frame_duration_value by (simp only: frame_duration_def)
  from f(3) have "save_calls (snd (create_gif_from_frames U w))
      = save_calls w @ [\<lparr>call_frames = frames, call_duration = int_of_float (1000 / real fps),
                         call_loop = 0\<rparr>]"
    by (simp only: frame_duration_def)
  with f(1,2) d show ?thesis by blast
qed

theorem create_gif_duration_witness:
  "listdir_frames world_with_frames
     = Some [ascii ''Frame_10.png'', ascii ''notes.txt'', ascii ''frame_2.png'']
   \<and> png_names [ascii ''Frame_10.png'', ascii ''notes.txt'', ascii ''frame_2.png'']
       = [ascii ''Frame_10.png'', ascii ''frame_2.png'']
   \<and> list_all (clean_name ascii_only) [ascii ''Frame_10.png'', ascii ''frame_2.png'']
   \<and> list_all (\<lambda>n. frame_of world_with_frames n \<noteq> None)
        [ascii ''Frame_10.png'', ascii ''frame_2.png'']
   \<and> save_calls world_with_frames = []
   \<and> (\<exists>frames. length frames = 2
          \<and> save_calls (snd (create_gif_from_frames ascii_only world_with_frames))
              = [\<lparr>call_frames = frames, call_duration = 66, call_loop = 0\<rparr>])"
proof -
  note f = world_with_frames_facts
  have ne: "png_names [ascii ''Frame_10.png'', ascii ''notes.txt'', ascii ''frame_2.png''] \<noteq> []"
    by (simp only: f(2)) simp
  have e: "save_calls world_with_frames = []"
    by (simp add: world_with_frames_def)
  from create_gif_duration [OF f(1) f(3) [folded f(2)] ne f(4) [folded f(2)]]
  obtain frames where
    g: "length frames
          = length (png_names [ascii ''Frame_10.png'', ascii ''notes.txt'', ascii ''frame_2.png''])"
      "save_calls (snd (create_gif_from_frames ascii_only world_with_frames))
         = save_calls world_with_frames
             @ [\<lparr>call_frames = frames, call_duration = int_of_float (1000 / real fps),
                 call_loop = 0\<rparr>]"
      "int_of_float (1000 / real fps) = 66"
    by blast
  have l: "length frames = 2"
    using g(1) by (simp only: f(2)) simp
  have s: "save_calls (snd (create_gif_from_frames ascii_only world_with_frames))
      = [\<lparr>call_frames = frames, call_duration = 66, call_loop = 0\<rparr>]"
    using g(2) by (simp only: g(3) e append_Nil)
  have "\<exists>frames. length frames = 2
      \<and> save_calls (snd (create_gif_from_frames ascii_only world_with_frames))
          = [\<lparr>call_frames = frames, call_duration = 66, call_loop = 0\<rparr>]"
    using l s by (intro exI [of _ frames] conjI)
  with f(1) f(2) f(3) f(4) e show ?thesis by (intro conjI)
qed

text \<open>
  Claim C1 as stated fails: for the two frames of the sample world the duration handed
  to the writer is 66 milliseconds and the file stores 6 hundredths of a second for each
  frame, while \<open>round(1000 / 15)\<close> is 67.
\<close>

theorem frame_duration_truncated:
  "save_calls (snd (create_gif_from_frames ascii_only world_with_frames))
     = [\<lparr>call_frames = [grey_pixel 2, grey_pixel 10], call_duration = 66, call_loop = 0\<rparr>]
   \<and> written_gif (create_gif_from_frames ascii_only world_with_frames)
       = Some \<lparr>gif_frames = [(grey_pixel 2, 6), (grey_pixel 10, 6)], gif_loop = 0\<rparr>
   \<and> py_round (1000 / real fps) = 67"
  using world_with_frames_result(2) world_with_frames_result(3) py_round_value
  by (intro conjI)

section \<open>Properties of the encoding step\<close>

lemma stdout_print: "stdout (print m w) = stdout w @ [m]"
  by (simp add: print_def)

lemma stdout_save_gif: "stdout (save_gif f fs d l w) = stdout w"
  by (simp add: save_gif_def Let_def)

lemma stdout_load_frames:
  "set (stdout w) \<subseteq> set (stdout (snd (load_frames fs n i names frames w)))"
proof (induction names arbitrary: i frames w)
  case Nil
  show ?case by simp
next
  case (Cons x xs)
  show ?case
  proof (cases "image_open fs (path_join (ascii ''frames'') x)")
    case None
    then show ?thesis by simp
  next
    case (Some img)
    show ?thesis
    proof (cases "convert_p fs img 256")
      case None
      with Some show ?thesis by simp
    next
      case frame: (Some frame)
      let ?w = "if (i + 1) mod 100 = 0 then print (LoadedFrames (i + 1) n) w else w"
      have "set (stdout w) \<subseteq> set (stdout ?w)" by (auto simp: stdout_print)
      also have "\<dots> \<subseteq> set (stdout (snd (load_frames fs n (i + 1) xs (frames @ [frame]) ?w)))"
        by (rule Cons.IH)
      finally show ?thesis using Some frame by simp
    qed
  qed
qed

lemma stdout_create_gif:
  "set (stdout w) \<subseteq> set (stdout (snd (create_gif_from_frames U w)))"
proof (cases "listdir_frames w")
  case None
  then show ?thesis by (simp add: create_gif_from_frames_def)
next
  case (Some names)
  show ?thesis
  proof (cases "sort_natural U (filter (\<lambda>f. endswith f (ascii ''.png'')) names)")
    case (Inl e)
    with Some show ?thesis by (simp add: create_gif_from_frames_def)
  next
    case (Inr ff)
    show ?thesis
    proof (cases "ff = []")
      case True
      with Some Inr show ?thesis by (auto simp: create_gif_from_frames_def stdout_print)
    next
      case False
      obtain res w1 where
        l: "load_frames w (length ff) 0 ff [] (print (FoundFrames (length ff) fps) w) = (res, w1)"
        by (cases "load_frames w (length ff) 0 ff [] (print (FoundFrames (length ff) fps) w)")
      have sub: "set (stdout w) \<subseteq> set (stdout w1)"
        using stdout_load_frames [of "print (FoundFrames (length ff) fps) w" w "length ff" 0 ff "[]"]
        by (auto simp: stdout_print l)
      show ?thesis
      proof (cases res)
        case e: (Inl e)
        with Some Inr False l sub show ?thesis by (simp add: create_gif_from_frames_def)
      next
        case fr: (Inr frames)
        show ?thesis
        proof (cases frames)
          case Nil
          with Some Inr False l sub fr show ?thesis
            by (auto simp: create_gif_from_frames_def stdout_print)
        next
          case (Cons f fs)
          with Some Inr False l sub fr show ?thesis
            by (auto simp: create_gif_from_frames_def stdout_print stdout_save_gif Let_def)
        qed
      qed
    qed
  qed
qed

text \<open>
  Claim C3. Let \<open>gen_gif\<close> leave the world \<open>w1\<close> with outcome \<open>r\<close>. If the primary
  encoder failed (it raised an exception, or returned with \<open>output.gif\<close> missing or below
  10001 bytes), the step is the fallback encoder run after the message "ffmpeg failed";
  otherwise the step ends with the outcome of \<open>gen_gif\<close> and at most the message "GIF
  generated with ffmpeg". The message that precedes the fallback is printed exactly
  when the primary encoder failed.
\<close>

theorem generate_gif_fallback:
  assumes "gen_gif (print GeneratingGif w) = (r, w1)"
    and "\<forall>e. FfmpegFailed e \<notin> set (stdout w1)"
  shows "(primary_failed (r, w1) \<longrightarrow>
            (\<exists>e. is_exception e
               \<and> generate_gif U gen_gif w = create_gif_from_frames U (print (FfmpegFailed e) w1)))
       \<and> (\<not> primary_failed (r, w1) \<longrightarrow>
            generate_gif U gen_gif w
              = (case r of None \<Rightarrow> (None, print GeneratedWithFfmpeg w1) | Some e \<Rightarrow> (Some e, w1)))
       \<and> (primary_failed (r, w1) \<longleftrightarrow>
            (\<exists>e. FfmpegFailed e \<in> set (stdout (snd (generate_gif U gen_gif w)))))"
proof -
  have a: "\<exists>e. is_exception e
      \<and> generate_gif U gen_gif w = create_gif_from_frames U (print (FfmpegFailed e) w1)"
    if "primary_failed (r, w1)"
    using that assms(1)
    by (auto simp: primary_failed_def generate_gif_def try_body_def min_gif_bytes_def
        is_exception_def split: option.splits)
  have b: "generate_gif U gen_gif w
      = (case r of None \<Rightarrow> (None, print GeneratedWithFfmpeg w1) | Some e \<Rightarrow> (Some e, w1))"
    if "\<not> primary_failed (r, w1)"
    using that assms(1)
    by (auto simp: primary_failed_def generate_gif_def try_body_def min_gif_bytes_def
        split: option.splits)
  have c: "\<exists>e. FfmpegFailed e \<in> set (stdout (snd (generate_gif U gen_gif w)))"
    if "primary_failed (r, w1)"
  proof -
    from a [OF that] obtain e where
      e: "generate_gif U gen_gif w = create_gif_from_frames U (print (FfmpegFailed e) w1)"
      by blast
    have "FfmpegFailed e \<in> set (stdout (print (FfmpegFailed e) w1))"
      by (simp add: stdout_print)
    then show ?thesis
      using stdout_create_gif [of "print (FfmpegFailed e) w1" U] e by auto
  qed
  have d: "\<not> (\<exists>e. FfmpegFailed e \<in> set (stdout (snd (generate_gif U gen_gif w))))"
    if "\<not> primary_failed (r, w1)"
    using b [OF that] assms(2) by (auto simp: stdout_print split: option.splits)
  from a b c d show ?thesis by blast
qed

theorem generate_gif_fallback_witness:
  "ffmpeg_writes 10000 (print GeneratingGif world_without_frames)
     = (None, (print GeneratingGif world_without_frames)
                \<lparr>output_file := Some \<lparr>file_size = 10000, file_gif = None\<rparr>\<rparr>)
   \<and> primary_failed (ffmpeg_writes 10000 (print GeneratingGif world_without_frames))
   \<and> stdout (snd (generate_gif ascii_only (ffmpeg_writes 10000) world_without_frames))
       = [GeneratingGif, FfmpegFailed PlainException, NoFramesFound]
   \<and> \<not> primary_failed (ffmpeg_writes 10001 (print GeneratingGif world_without_frames))
   \<and> stdout (snd (generate_gif ascii_only (ffmpeg_writes 10001) world_without_frames))
       = [GeneratingGif, GeneratedWithFfmpeg]"
proof -
  let ?w = "print GeneratingGif world_without_frames"
  let ?w1 = "\<lambda>n. ?w\<lparr>output_file := Some \<lparr>file_size = n, file_gif = None\<rparr>\<rparr>"
  have g: "ffmpeg_writes n ?w = (None, ?w1 n)" for n
    by (simp add: ffmpeg_writes_def)
  have q: "\<forall>e. FfmpegFailed e \<notin> set (stdout (?w1 n))" for n
    by (simp add: print_def world_without_frames_def)
  have p: "primary_failed (None, ?w1 10000)" "\<not> primary_failed (None, ?w1 10001)"
    by (simp_all add: primary_failed_def min_gif_bytes_def)
  from generate_gif_fallback [where gen_gif = "ffmpeg_writes 10000" and w = world_without_frames
      and U = ascii_only, OF g q] p(1)
  obtain e where "is_exception e"
    and e: "generate_gif ascii_only (ffmpeg_writes 10000) world_without_frames
      = create_gif_from_frames ascii_only (print (FfmpegFailed e) (?w1 10000))"
    by blast
  have e': "generate_gif ascii_only (ffmpeg_writes 10000) world_without_frames
      = create_gif_from_frames ascii_only (print (FfmpegFailed PlainException) (?w1 10000))"
    by (simp add: generate_gif_def try_body_def ffmpeg_writes_def is_exception_def)
  have "FfmpegFailed e \<in> set (stdout (snd (generate_gif ascii_only (ffmpeg_writes 10000)
      world_without_frames)))"
    unfolding e using stdout_create_gif [of "print (FfmpegFailed e) (?w1 10000)" ascii_only]
    by (auto simp: stdout_print)
  have s1: "stdout (snd (generate_gif ascii_only (ffmpeg_writes 10000) world_without_frames))
      = [GeneratingGif, FfmpegFailed PlainException, NoFramesFound]"
    unfolding e'
    by (simp add: create_gif_from_frames_def print_def world_without_frames_def endswith_def
        ascii_def sort_natural_Nil)
  from generate_gif_fallback [where gen_gif = "ffmpeg_writes 10001" and w = world_without_frames
      and U = ascii_only, OF g q] p(2)
  have "generate_gif ascii_only (ffmpeg_writes 10001) world_without_frames
      = (None, print GeneratedWithFfmpeg (?w1 10001))"
    by simp
  then have s2: "stdout (snd (generate_gif ascii_only (ffmpeg_writes 10001) world_without_frames))
      = [GeneratingGif, GeneratedWithFfmpeg]"
    by (simp add: print_def world_without_frames_def)
  from g p s1 s2 show ?thesis by simp
qed

section \<open>Properties of prepare_transparent_image\<close>

lemma blend_transparent:
  "blend 0 12 x = 12" "blend 0 14 x = 14" "blend 0 15 x = 15"
  by (simp_all add: blend_def div255_def)

lemma paste_transparent:
  assumes "list_all (\<lambda>px. snd (snd (snd px)) = 0) pixels"
  shows "map2 paste_pixel (replicate n (12, 14, 15)) pixels
       = replicate (min n (length pixels)) (12, 14, 15)"
  using assms
proof (induction pixels arbitrary: n)
  case Nil
  show ?case by simp
next
  case (Cons px pixels)
  show ?case
  proof (cases n)
    case 0
    then show ?thesis by simp
  next
    case (Suc m)
    obtain r g b a where px: "px = (r, g, b, a)" by (cases px) auto
    with Cons.prems have "a = 0" by simp
    then have "paste_pixel (12, 14, 15) px = (12, 14, 15)"
      by (simp add: px paste_pixel_def blend_transparent)
    with Cons Suc show ?thesis by simp
  qed
qed

text \<open>
  Claim C7. For an image whose pixels (as RGBA) all have alpha 0, compositing onto
  (12, 14, 15) returns an image of the same size in which every pixel is (12, 14, 15).
\<close>

theorem composite_fully_transparent:
  assumes "list_all (\<lambda>px. snd (snd (snd px)) = 0) (img_rgba img)"
    and "length (img_rgba img) = fst (img_size img) * snd (img_size img)"
  shows "prepare_transparent_image (Some img) (Some (12, 14, 15)) d
       = Inr \<lparr>rgb_size = img_size img,
              rgb_data = replicate (fst (img_size img) * snd (img_size img)) (12, 14, 15)\<rparr>"
  using assms
  by (simp add: prepare_transparent_image_def Let_def image_new_def paste_def clip8_def
      convert_rgba_def paste_transparent)


theorem composite_fully_transparent_witness:
  "list_all (\<lambda>px. snd (snd (snd px)) = 0) (img_rgba transparent_image)
   \<and> length (img_rgba transparent_image)
       = fst (img_size transparent_image) * snd (img_size transparent_image)
   \<and> prepare_transparent_image (Some transparent_image) (Some (12, 14, 15)) (Inl ValueError)
       = Inr \<lparr>rgb_size = (2, 1), rgb_data = [(12, 14, 15), (12, 14, 15)]\<rparr>"
proof -
  have a: "list_all (\<lambda>px. snd (snd (snd px)) = 0) (img_rgba transparent_image)"
    by (simp add: transparent_image_def)
  have l: "length (img_rgba transparent_image)
      = fst (img_size transparent_image) * snd (img_size transparent_image)"
    by (simp add: transparent_image_def)
  have z: "img_size transparent_image = (2, 1)"
    by (simp add: transparent_image_def)
  from composite_fully_transparent [OF a l, of "Inl ValueError"] a l show ?thesis
    by (simp add: z numeral_2_eq_2)
qed

end
